theory Spec2Isabelle
  imports Complex_Main "HOL-Library.Sublist" "HOL-Library.AList"
begin

section \<open>Python string primitives used by the transfer code\<close>

text \<open>
  \<open>core.py\<close> manipulates paths as plain Python strings: \<open>path.split('/')\<close> and
  \<open>'/'.join(dirs[:i+1])\<close> in \<open>mkdirs\<close>, \<open>dst.rsplit('/',1)[0]\<close> in \<open>upload\<close>,
  \<open>os.path.dirname(dst)\<close> in \<open>download\<close> and \<open>path.replace(src,dst)\<close> in
  \<open>download_tree\<close> and \<open>upload_tree\<close>.  Strings are \<open>char list\<close>.
\<close>

text \<open>\<open>sep.join(xs)\<close>.\<close>

fun py_join :: "string \<Rightarrow> string list \<Rightarrow> string" where
  "py_join sep [] = []"
| "py_join sep [x] = x"
| "py_join sep (x # y # ys) = x @ sep @ py_join sep (y # ys)"

text \<open>
  \<open>s.split(sep)\<close> for a non-empty separator: a left-to-right scan that cuts at every
  occurrence of \<open>sep\<close> and resumes behind it; \<open>cur\<close> is the piece collected so far.
  (Python raises \<open>ValueError\<close> for an empty separator; the only separator in the source is
  the literal \<open>'/'\<close>.)
\<close>

fun split_on :: "string \<Rightarrow> string \<Rightarrow> string \<Rightarrow> string list" where
  "split_on sep cur [] = [cur]"
| "split_on sep cur (c # cs) =
     (if prefix sep (c # cs) then cur # split_on sep [] (drop (length sep - 1) cs)
      else split_on sep (cur @ [c]) cs)"

definition py_split :: "string \<Rightarrow> string \<Rightarrow> string list" where
  "py_split sep s = split_on sep [] s"

text \<open>
  \<open>s.replace(old, new)\<close>: every non-overlapping occurrence of \<open>old\<close>, found from the
  left, is replaced; an empty \<open>old\<close> matches before every character and at the end.
\<close>

fun py_replace :: "string \<Rightarrow> string \<Rightarrow> string \<Rightarrow> string" where
  "py_replace old new [] = (if old = [] then new else [])"
| "py_replace old new (c # cs) =
     (if old = [] then new @ c # py_replace old new cs
      else if prefix old (c # cs) then new @ py_replace old new (drop (length old - 1) cs)
      else c # py_replace old new cs)"

text \<open>\<open>s.rsplit('/', 1)[0]\<close>: the part before the last slash, the whole string when there is none.\<close>

definition rsplit_head :: "string \<Rightarrow> string" where
  "rsplit_head s =
     (if CHR ''/'' \<in> set s then rev (tl (dropWhile (\<lambda>c. c \<noteq> CHR ''/'') (rev s))) else s)"

text \<open>
  \<open>os.path.dirname\<close> (posixpath): everything up to and including the last slash, with the
  trailing slashes stripped unless the head consists of slashes only.
\<close>

definition os_path_dirname :: "string \<Rightarrow> string" where
  "os_path_dirname p =
     (let head = rev (dropWhile (\<lambda>c. c \<noteq> CHR ''/'') (rev p))
      in if head \<noteq> [] \<and> \<not> list_all (\<lambda>c. c = CHR ''/'') head
         then rev (dropWhile (\<lambda>c. c = CHR ''/'') (rev head)) else head)"

text \<open>
  A Python \<open>dict\<close> built by successive assignments: an association list in which a key keeps
  its first position and its last value (\<open>AList.update\<close>).
\<close>

definition py_dict :: "('k \<times> 'v) list \<Rightarrow> ('k \<times> 'v) list" where
  "py_dict kvs = fold (\<lambda>kv d. AList.update (fst kv) (snd kv) d) kvs []"

section \<open>The collaborators: file trees, FTP sessions, configuration\<close>

text \<open>
  The session object (\<open>ftplib.FTP\<close>), the local file system (\<open>os\<close>, \<open>open\<close>) and the
  configuration (\<open>CFG\<close>) are consumed by \<open>core.py\<close>, not implemented by it.  They are
  modelled at their interface: a file tree per server and one for the local disk, a table of
  sessions with a current-directory cursor each, and the commands the code sends.  The
  transport is reliable: a command on an open session fails only with \<open>error_perm\<close> (a
  permanent negative reply), a command on a closed session fails in the client.
\<close>

datatype node = File string | Dir "(string \<times> node) list"

fun fs_lookup :: "node \<Rightarrow> string list \<Rightarrow> node option" where
  "fs_lookup n [] = Some n"
| "fs_lookup (File c) (x # xs) = None"
| "fs_lookup (Dir cs) (x # xs) =
     (case map_of cs x of None \<Rightarrow> None | Some c \<Rightarrow> fs_lookup c xs)"

text \<open>
  \<open>fs_put r t v\<close> stores \<open>v\<close> at \<open>t\<close>: it replaces the entry there, or adds a new entry to the
  parent directory; it fails when the parent is not a directory.
\<close>

fun fs_put :: "node \<Rightarrow> string list \<Rightarrow> node \<Rightarrow> node option" where
  "fs_put n [] v = Some v"
| "fs_put (File c) (x # xs) v = None"
| "fs_put (Dir cs) (x # xs) v =
     (case map_of cs x of
        None \<Rightarrow> if xs = [] then Some (Dir (cs @ [(x, v)])) else None
      | Some c \<Rightarrow> (case fs_put c xs v of None \<Rightarrow> None
                   | Some c' \<Rightarrow> Some (Dir (AList.update x c' cs))))"

definition is_Dir :: "node option \<Rightarrow> bool" where
  "is_Dir n = (case n of Some (Dir cs) \<Rightarrow> True | _ \<Rightarrow> False)"

definition is_File :: "node option \<Rightarrow> bool" where
  "is_File n = (case n of Some (File c) \<Rightarrow> True | _ \<Rightarrow> False)"

text \<open>
  Paths are resolved lexically against the cursor: an absolute path starts from the root;
  empty segments and \<open>.\<close> are skipped, \<open>..\<close> drops the last segment.
\<close>

fun norm_segs :: "string list \<Rightarrow> string list \<Rightarrow> string list" where
  "norm_segs base [] = base"
| "norm_segs base (x # xs) =
     (if x = [] \<or> x = ''.'' then norm_segs base xs
      else if x = ''..'' then norm_segs (butlast base) xs
      else norm_segs (base @ [x]) xs)"

definition resolve :: "string list \<Rightarrow> string \<Rightarrow> string list" where
  "resolve cur p =
     norm_segs (if p \<noteq> [] \<and> hd p = CHR ''/'' then [] else cur) (py_split ''/'' p)"

text \<open>The absolute path a server prints for a cursor (the reply to \<open>PWD\<close>).\<close>

definition render :: "string list \<Rightarrow> string" where
  "render cur = ''/'' @ py_join ''/'' cur"

text \<open>The name under which a listing of \<open>p\<close> reports the entry \<open>n\<close> of \<open>p\<close>.\<close>

definition child_path :: "string \<Rightarrow> string \<Rightarrow> string" where
  "child_path p n =
     (if p = [] then n else if last p = CHR ''/'' then p @ n else p @ ''/'' @ n)"

datatype exn =
    FileExistsError | FileNotFoundError | IsADirectoryError | NotADirectoryError
  | KeyError | ValueError | UnboundLocalError | AttributeError | OSError | OverflowError
  | error_perm

datatype command =
    PWD | CWD string | CDUP | MKD string | NLST string | TYPE_I | STOR string | RETR string
  | QUIT

datatype event =
    Connect nat string | Cmd nat command | OpenRead string | OpenWrite string | Sleep rat

text \<open>The records written to \<open>LOG\<close>, one constructor per message template of the source.\<close>

datatype log_record =
    Welcome
  | Retry nat string
  | CreateDirectoryOnFTP string
  | CreateDirectories string
  | DownloadingOverwrite string string
  | Downloading string string
  | UploadingOverwrite string string
  | Uploading string string

text \<open>The keyword arguments of \<open>get_ftp\<close>; \<open>tls\<close> is \<open>None\<close> when the key is absent.\<close>

record login =
  host :: string
  user :: string
  passwd :: string
  tls :: "bool option"

text \<open>\<open>CFG\<close>: the decrypted server registry and the two optional integers.\<close>

record config =
  cfg_server :: "(string \<times> login) list"
  cfg_retries :: "int option"
  cfg_connections :: "int option"

record ftp_host =
  accounts :: "(string \<times> string) list"
  fs :: node

record session =
  s_host :: string
  s_cwd :: "string list"
  s_open :: bool
  s_binary :: bool
  s_tls :: bool

record world =
  CFG :: config
  hosts :: "(string \<times> ftp_host) list"
  sessions :: "session list"
  disk :: node
  os_cwd :: "string list"
  LOG :: "log_record list"
  trace :: "event list"

text \<open>
  A computation runs on the world and ends with a value (\<open>Inr\<close>) or a raised exception
  (\<open>Inl\<close>); the effects made before the exception stay.
\<close>

type_synonym 'a io = "world \<Rightarrow> (exn + 'a) \<times> world"

definition ret :: "'a \<Rightarrow> 'a io" where
  "ret x w = (Inr x, w)"

definition throw :: "exn \<Rightarrow> 'a io" where
  "throw e w = (Inl e, w)"

definition bnd :: "'a io \<Rightarrow> ('a \<Rightarrow> 'b io) \<Rightarrow> 'b io" where
  "bnd m f w = (case m w of (Inl e, w1) \<Rightarrow> (Inl e, w1) | (Inr x, w1) \<Rightarrow> f x w1)"

definition log_record :: "log_record \<Rightarrow> unit io" where
  "log_record r w = (Inr (), w\<lparr>LOG := LOG w @ [r]\<rparr>)"

definition sent :: "nat \<Rightarrow> command \<Rightarrow> world \<Rightarrow> world" where
  "sent sid c w = w\<lparr>trace := trace w @ [Cmd sid c]\<rparr>"

text \<open>An open session together with the file tree of its server.\<close>

definition target :: "world \<Rightarrow> nat \<Rightarrow> (session \<times> node) option" where
  "target w sid =
     (if sid < length (sessions w) \<and> s_open (sessions w ! sid)
      then (case map_of (hosts w) (s_host (sessions w ! sid)) of
              None \<Rightarrow> None
            | Some h \<Rightarrow> Some (sessions w ! sid, fs h))
      else None)"

definition set_fs :: "string \<Rightarrow> node \<Rightarrow> world \<Rightarrow> world" where
  "set_fs h r w = w\<lparr>hosts := AList.map_entry h (\<lambda>v. v\<lparr>fs := r\<rparr>) (hosts w)\<rparr>"

subsection \<open>The commands of a session\<close>

definition ftp_pwd :: "nat \<Rightarrow> string io" where
  "ftp_pwd sid w =
     (case target w sid of
        None \<Rightarrow> (Inl AttributeError, w)
      | Some (s, r) \<Rightarrow> (Inr (render (s_cwd s)), sent sid PWD w))"

text \<open>\<open>ftplib\<close> sends \<open>CDUP\<close> for \<open>'..'\<close> and \<open>CWD .\<close> for the empty name.\<close>

definition ftp_cwd :: "nat \<Rightarrow> string \<Rightarrow> unit io" where
  "ftp_cwd sid dirname w =
     (case target w sid of
        None \<Rightarrow> (Inl AttributeError, w)
      | Some (s, r) \<Rightarrow>
          (let c = (if dirname = ''..'' then CDUP
                    else if dirname = [] then CWD ''.'' else CWD dirname);
               t = resolve (s_cwd s) dirname;
               w1 = sent sid c w
           in if is_Dir (fs_lookup r t)
              then (Inr (), w1\<lparr>sessions := (sessions w1)[sid := s\<lparr>s_cwd := t\<rparr>]\<rparr>)
              else (Inl error_perm, w1)))"

definition ftp_mkd :: "nat \<Rightarrow> string \<Rightarrow> unit io" where
  "ftp_mkd sid dirname w =
     (case target w sid of
        None \<Rightarrow> (Inl AttributeError, w)
      | Some (s, r) \<Rightarrow>
          (let t = resolve (s_cwd s) dirname; w1 = sent sid (MKD dirname) w
           in if fs_lookup r t \<noteq> None then (Inl error_perm, w1)
              else (case fs_put r t (Dir []) of
                      None \<Rightarrow> (Inl error_perm, w1)
                    | Some r' \<Rightarrow> (Inr (), set_fs (s_host s) r' w1))))"

text \<open>
  \<open>NLST p\<close>: the entries of a directory under the names \<open>child_path p n\<close>, the path itself
  for a file, the empty list for a path that does not exist.
\<close>

definition ftp_nlst :: "nat \<Rightarrow> string \<Rightarrow> string list io" where
  "ftp_nlst sid p w =
     (case target w sid of
        None \<Rightarrow> (Inl AttributeError, w)
      | Some (s, r) \<Rightarrow>
          (let w1 = sent sid (NLST p) w
           in case fs_lookup r (resolve (s_cwd s) p) of
                None \<Rightarrow> (Inr [], w1)
              | Some (File c) \<Rightarrow> (Inr [p], w1)
              | Some (Dir cs) \<Rightarrow> (Inr (map (\<lambda>nc. child_path p (fst nc)) cs), w1)))"

definition ftp_type_i :: "nat \<Rightarrow> unit io" where
  "ftp_type_i sid w =
     (case target w sid of
        None \<Rightarrow> (Inl AttributeError, w)
      | Some (s, r) \<Rightarrow>
          (let w1 = sent sid TYPE_I w
           in (Inr (), w1\<lparr>sessions := (sessions w1)[sid := s\<lparr>s_binary := True\<rparr>]\<rparr>)))"

definition ftp_storbinary :: "nat \<Rightarrow> string \<Rightarrow> string \<Rightarrow> unit io" where
  "ftp_storbinary sid p content w =
     (case target w sid of
        None \<Rightarrow> (Inl AttributeError, w)
      | Some (s, r) \<Rightarrow>
          (let t = resolve (s_cwd s) p; w1 = sent sid (STOR p) w
           in if is_Dir (fs_lookup r t) then (Inl error_perm, w1)
              else (case fs_put r t (File content) of
                      None \<Rightarrow> (Inl error_perm, w1)
                    | Some r' \<Rightarrow> (Inr (), set_fs (s_host s) r' w1))))"

definition ftp_retrbinary :: "nat \<Rightarrow> string \<Rightarrow> string io" where
  "ftp_retrbinary sid p w =
     (case target w sid of
        None \<Rightarrow> (Inl AttributeError, w)
      | Some (s, r) \<Rightarrow>
          (let w1 = sent sid (RETR p) w
           in case fs_lookup r (resolve (s_cwd s) p) of
                Some (File c) \<Rightarrow> (Inr c, w1)
              | _ \<Rightarrow> (Inl error_perm, w1)))"

definition ftp_quit :: "nat \<Rightarrow> unit io" where
  "ftp_quit sid w =
     (case target w sid of
        None \<Rightarrow> (Inl AttributeError, w)
      | Some (s, r) \<Rightarrow>
          (let w1 = sent sid QUIT w
           in (Inr (), w1\<lparr>sessions := (sessions w1)[sid := s\<lparr>s_open := False\<rparr>]\<rparr>)))"

subsection \<open>The local file system\<close>

text \<open>
  The operating system (Linux; no symbolic links, no permissions) walks a path one
  component at a time, from the root for an absolute path and from the working directory
  otherwise.  Every component, also an empty one, \<open>.\<close> and \<open>..\<close>, is looked up in a
  directory: when the place reached so far does not exist the walk fails with
  \<open>FileNotFoundError\<close>, when it is a file with \<open>NotADirectoryError\<close>.
\<close>

fun os_walk :: "node \<Rightarrow> string list \<Rightarrow> string list \<Rightarrow> exn + string list" where
  "os_walk r cur [] = Inr cur"
| "os_walk r cur (x # xs) =
     (case fs_lookup r cur of
        None \<Rightarrow> Inl FileNotFoundError
      | Some (File c) \<Rightarrow> Inl NotADirectoryError
      | Some (Dir cs) \<Rightarrow>
          os_walk r (if x = [] \<or> x = ''.'' then cur
                     else if x = ''..'' then butlast cur else cur @ [x]) xs)"

definition os_base :: "string \<Rightarrow> world \<Rightarrow> string list" where
  "os_base p w = (if p \<noteq> [] \<and> hd p = CHR ''/'' then [] else os_cwd w)"

text \<open>\<open>os.stat(p)\<close>: the node a path names; the empty path names nothing.\<close>

definition os_stat :: "string \<Rightarrow> world \<Rightarrow> exn + node" where
  "os_stat p w =
     (if p = [] then Inl FileNotFoundError
      else (case os_walk (disk w) (os_base p w) (py_split ''/'' p) of
              Inl e \<Rightarrow> Inl e
            | Inr t \<Rightarrow> (case fs_lookup (disk w) t of
                          None \<Rightarrow> Inl FileNotFoundError
                        | Some n \<Rightarrow> Inr n)))"

text \<open>\<open>os.path.isfile\<close> and \<open>os.path.exists\<close> answer \<open>False\<close> when \<open>os.stat\<close> fails.\<close>

definition os_path_isfile :: "string \<Rightarrow> world \<Rightarrow> bool" where
  "os_path_isfile p w = (case os_stat p w of Inr (File c) \<Rightarrow> True | _ \<Rightarrow> False)"

definition os_path_exists :: "string \<Rightarrow> world \<Rightarrow> bool" where
  "os_path_exists p w = (case os_stat p w of Inr n \<Rightarrow> True | _ \<Rightarrow> False)"

text \<open>
  A call that may create an entry walks to the directory of the last component: the result
  is that directory, the last component (\<open>.\<close> for a path of slashes only) and whether
  slashes follow it.
\<close>

definition os_entry :: "string \<Rightarrow> world \<Rightarrow> exn + (string list \<times> string \<times> bool)" where
  "os_entry p w =
     (let segs = py_split ''/'' p;
          body = rev (dropWhile (\<lambda>s. s = []) (rev segs))
      in if p = [] then Inl FileNotFoundError
         else (case os_walk (disk w) (os_base p w) (butlast body @ [[]]) of
                 Inl e \<Rightarrow> Inl e
               | Inr par \<Rightarrow>
                   Inr (par, if body = [] then ''.'' else last body, body \<noteq> segs)))"

text \<open>\<open>os.mkdir(p)\<close>: one new directory; the entry must not exist.\<close>

definition os_mkdir :: "string \<Rightarrow> unit io" where
  "os_mkdir p w =
     (case os_entry p w of
        Inl e \<Rightarrow> (Inl e, w)
      | Inr (par, x, slash) \<Rightarrow>
          if x = ''.'' \<or> x = ''..'' \<or> fs_lookup (disk w) (par @ [x]) \<noteq> None
          then (Inl FileExistsError, w)
          else (case fs_put (disk w) (par @ [x]) (Dir []) of
                  None \<Rightarrow> (Inl OSError, w)
                | Some r' \<Rightarrow> (Inr (), w\<lparr>disk := r'\<rparr>)))"

text \<open>\<open>posixpath.split\<close>: the head is \<open>os.path.dirname\<close>, the tail what follows the last slash.\<close>

definition posix_split :: "string \<Rightarrow> string \<times> string" where
  "posix_split p = (os_path_dirname p, rev (takeWhile (\<lambda>c. c \<noteq> CHR ''/'') (rev p)))"

text \<open>
  The first lines of \<open>os.makedirs\<close>:
  \<open>head, tail = path.split(name); if not tail: head, tail = path.split(head)\<close>.
\<close>

definition makedirs_split :: "string \<Rightarrow> string \<times> string" where
  "makedirs_split name =
     (if snd (posix_split name) = [] then posix_split (fst (posix_split name))
      else posix_split name)"

text \<open>
  \<open>os.makedirs(name)\<close> with \<open>exist_ok=False\<close>: when the head does not exist it is made
  first, by the recursive call, whose \<open>FileExistsError\<close> is swallowed; then, unless the
  tail is \<open>.\<close>, \<open>os.mkdir(name)\<close>.
\<close>

function os_makedirs :: "string \<Rightarrow> unit io" where
  "os_makedirs name w =
     (if fst (makedirs_split name) \<noteq> [] \<and> snd (makedirs_split name) \<noteq> [] \<and>
         \<not> os_path_exists (fst (makedirs_split name)) w
      then (case os_makedirs (fst (makedirs_split name)) w of
              (Inl e, w1) \<Rightarrow>
                if e = FileExistsError
                then (if snd (makedirs_split name) = ''.'' then (Inr (), w1)
                      else os_mkdir name w1)
                else (Inl e, w1)
            | (Inr u, w1) \<Rightarrow>
                if snd (makedirs_split name) = ''.'' then (Inr (), w1) else os_mkdir name w1)
      else os_mkdir name w)"
  by pat_completeness auto

termination
proof (relation "measure (\<lambda>(name, w). length name)")
  show "wf (measure (\<lambda>(name, w). length name))" by simp
next
  fix name :: string and w :: world
  assume a: "fst (makedirs_split name) \<noteq> [] \<and> snd (makedirs_split name) \<noteq> [] \<and>
             \<not> os_path_exists (fst (makedirs_split name)) w"
  have d: "length (os_path_dirname p) \<le> length (dropWhile (\<lambda>c. c \<noteq> CHR ''/'') (rev p))"
    for p :: string
    using length_dropWhile_le
      [of "\<lambda>c. c = CHR ''/''" "rev (rev (dropWhile (\<lambda>c. c \<noteq> CHR ''/'') (rev p)))"]
    by (simp add: os_path_dirname_def Let_def)
  have s: "length (fst (posix_split p)) + length (snd (posix_split p)) \<le> length p"
    for p :: string
  proof -
    have "length (takeWhile (\<lambda>c. c \<noteq> CHR ''/'') (rev p))
            + length (dropWhile (\<lambda>c. c \<noteq> CHR ''/'') (rev p)) = length (rev p)"
      by (metis length_append takeWhile_dropWhile_id)
    then show ?thesis using d [of p] by (simp add: posix_split_def)
  qed
  have "length (fst (makedirs_split name)) + length (snd (makedirs_split name)) \<le> length name"
    using s [of name] s [of "fst (posix_split name)"] by (simp add: makedirs_split_def)
  moreover have "snd (makedirs_split name) \<noteq> []" using a by simp
  ultimately have "length (fst (makedirs_split name)) < length name"
    by (cases "snd (makedirs_split name)") auto
  then show "((fst (makedirs_split name), w), (name, w)) \<in> measure (\<lambda>(name, w). length name)"
    by simp
qed

declare os_makedirs.simps [simp del]

text \<open>\<open>open(p, 'rb')\<close> followed by reading the file: the content.\<close>

definition open_rb :: "string \<Rightarrow> string io" where
  "open_rb p w =
     (case os_stat p w of
        Inl e \<Rightarrow> (Inl e, w)
      | Inr (Dir cs) \<Rightarrow> (Inl IsADirectoryError, w)
      | Inr (File c) \<Rightarrow> (Inr c, w\<lparr>trace := trace w @ [OpenRead p]\<rparr>))"

text \<open>
  \<open>open(p, 'wb')\<close>: the file is created or truncated; the value is the open file, the place
  of the file on the disk.  A last component \<open>.\<close> or \<open>..\<close>, a trailing slash and a
  directory are refused with \<open>IsADirectoryError\<close>.
\<close>

definition open_wb :: "string \<Rightarrow> string list io" where
  "open_wb p w =
     (case os_entry p w of
        Inl e \<Rightarrow> (Inl e, w)
      | Inr (par, x, slash) \<Rightarrow>
          if x = ''.'' \<or> x = ''..'' \<or> slash \<or> is_Dir (fs_lookup (disk w) (par @ [x]))
          then (Inl IsADirectoryError, w)
          else (case fs_put (disk w) (par @ [x]) (File []) of
                  None \<Rightarrow> (Inl OSError, w)
                | Some r' \<Rightarrow>
                    (Inr (par @ [x]), w\<lparr>disk := r', trace := trace w @ [OpenWrite p]\<rparr>)))"

text \<open>\<open>f.write\<close> as the callback of \<open>retrbinary\<close>: the open file receives the content.\<close>

definition file_write :: "string list \<Rightarrow> string \<Rightarrow> unit io" where
  "file_write f content w =
     (case fs_put (disk w) f (File content) of
        None \<Rightarrow> (Inl OSError, w)
      | Some r' \<Rightarrow> (Inr (), w\<lparr>disk := r'\<rparr>))"

text \<open>
  \<open>time.sleep(secs)\<close> refuses a negative duration with \<open>ValueError\<close> and a duration whose
  number of nanoseconds does not fit a signed 64-bit integer with \<open>OverflowError\<close>.
\<close>

definition time_sleep :: "rat \<Rightarrow> unit io" where
  "time_sleep t w =
     (if t < 0 then (Inl ValueError, w)
      else if 2 ^ 63 < t * 10 ^ 9 then (Inl OverflowError, w)
      else (Inr (), w\<lparr>trace := trace w @ [Sleep t]\<rparr>))"

section \<open>Session resolution and the scoped session guard\<close>

text \<open>
  \<open>get_ftp\<close> opens a session (the login directory is the root of the server's tree) and
  logs the welcome line; \<open>get_ftp_from_config\<close> looks the server up in \<open>CFG['server']\<close>,
  with \<open>tls\<close> defaulting to \<open>True\<close>.
\<close>

definition get_ftp :: "login \<Rightarrow> nat io" where
  "get_ftp l w =
     (case map_of (hosts w) (host l) of
        None \<Rightarrow> (Inl OSError, w)
      | Some h \<Rightarrow>
          if (user l, passwd l) \<in> set (accounts h)
          then (let sid = length (sessions w);
                    s = \<lparr>s_host = host l, s_cwd = [], s_open = True, s_binary = False,
                         s_tls = (case tls l of None \<Rightarrow> True | Some b \<Rightarrow> b)\<rparr>
                in (Inr sid, w\<lparr>sessions := sessions w @ [s], LOG := LOG w @ [Welcome],
                               trace := trace w @ [Connect sid (host l)]\<rparr>))
          else (Inl error_perm, w))"

definition get_ftp_from_config :: "string \<Rightarrow> nat io" where
  "get_ftp_from_config server w =
     (case map_of (cfg_server (CFG w)) server of
        None \<Rightarrow> (Inl KeyError, w)
      | Some l \<Rightarrow> get_ftp (l\<lparr>tls := Some (case tls l of None \<Rightarrow> True | Some b \<Rightarrow> b)\<rparr>) w)"

text \<open>Python truthiness of an optional string argument: \<open>None\<close> and \<open>''\<close> are false.\<close>

definition truthy :: "string option \<Rightarrow> bool" where
  "truthy s = (case s of None \<Rightarrow> False | Some x \<Rightarrow> x \<noteq> [])"

text \<open>
  The decorator \<open>ftp_object\<close>: the session passed by the caller, else one for the named
  server, else one for the login, else one for the server \<open>'main'\<close>.
\<close>

definition ftp_object :: "nat option \<Rightarrow> string option \<Rightarrow> login option \<Rightarrow> nat io" where
  "ftp_object ftp server login =
     (case ftp of
        Some sid \<Rightarrow> ret sid
      | None \<Rightarrow>
          if truthy server then get_ftp_from_config (the server)
          else (case login of
                  Some l \<Rightarrow> get_ftp l
                | None \<Rightarrow> get_ftp_from_config ''main''))"

text \<open>
  The class \<open>Ftp\<close>: \<open>__init__\<close> picks the session by the same precedence, \<open>__enter__\<close>
  returns it, \<open>__exit__\<close> calls \<open>quit\<close> on it and returns \<open>None\<close>, so an exception of the
  body is raised again after the \<open>quit\<close>.
\<close>

definition Ftp_init :: "nat option \<Rightarrow> string option \<Rightarrow> login option \<Rightarrow> nat io" where
  "Ftp_init ftp server login =
     (case ftp of
        Some sid \<Rightarrow> ret sid
      | None \<Rightarrow>
          if truthy server then get_ftp_from_config (the server)
          else (case login of
                  Some l \<Rightarrow> get_ftp l
                | None \<Rightarrow> get_ftp_from_config ''main''))"

definition Ftp_exit :: "nat \<Rightarrow> unit io" where
  "Ftp_exit sid = ftp_quit sid"

definition with_Ftp ::
  "nat option \<Rightarrow> string option \<Rightarrow> login option \<Rightarrow> (nat \<Rightarrow> 'a io) \<Rightarrow> 'a io" where
  "with_Ftp ftp server login body w =
     (case Ftp_init ftp server login w of
        (Inl e, w1) \<Rightarrow> (Inl e, w1)
      | (Inr sid, w1) \<Rightarrow>
          (case body sid w1 of
             (r, w2) \<Rightarrow>
               (case Ftp_exit sid w2 of
                  (Inl e, w3) \<Rightarrow> (Inl e, w3)
                | (Inr u, w3) \<Rightarrow> (r, w3))))"

section \<open>Path operations\<close>

definition ls ::
  "string \<Rightarrow> nat option \<Rightarrow> string option \<Rightarrow> login option \<Rightarrow> bool \<Rightarrow> string list io" where
  "ls path ftp server login close =
     bnd (ftp_object ftp server login) (\<lambda>sid.
     bnd (ftp_nlst sid path) (\<lambda>data.
     bnd (if close then ftp_quit sid else ret ()) (\<lambda>u.
     ret data)))"

definition is_dir ::
  "string \<Rightarrow> nat option \<Rightarrow> string option \<Rightarrow> login option \<Rightarrow> bool \<Rightarrow> bool io" where
  "is_dir path ftp server login close =
     bnd (ftp_object ftp server login) (\<lambda>sid.
     bnd (ftp_pwd sid) (\<lambda>current w.
       case ftp_cwd sid path w of
         (Inl e, w1) \<Rightarrow>
           if e = error_perm
           then bnd (if close then ftp_quit sid else ret ()) (\<lambda>u. ret False) w1
           else (Inl e, w1)
       | (Inr u, w1) \<Rightarrow>
           bnd (ftp_cwd sid current) (\<lambda>u.
           bnd (if close then ftp_quit sid else ret ()) (\<lambda>u.
           ret True)) w1))"

text \<open>The loop \<open>for i in range(len(dirs))\<close> of \<open>mkdirs\<close>, over the list of indices.\<close>

fun mkdirs_loop :: "string list \<Rightarrow> nat list \<Rightarrow> nat \<Rightarrow> unit io" where
  "mkdirs_loop dirs [] sid = ret ()"
| "mkdirs_loop dirs (i # is) sid =
     (let dir = py_join ''/'' (take (i + 1) dirs)
      in bnd (if dir \<noteq> []
              then bnd (is_dir dir (Some sid) None None False) (\<lambda>b.
                     if \<not> b
                     then bnd (log_record (CreateDirectoryOnFTP dir)) (\<lambda>u. ftp_mkd sid dir)
                     else ret ())
              else ret ())
           (\<lambda>u. mkdirs_loop dirs is sid))"

definition mkdirs ::
  "string \<Rightarrow> nat option \<Rightarrow> string option \<Rightarrow> login option \<Rightarrow> bool \<Rightarrow> unit io" where
  "mkdirs path ftp server login close =
     bnd (ftp_object ftp server login) (\<lambda>sid.
       let dirs = py_split ''/'' path
       in mkdirs_loop dirs [0..<length dirs] sid)"

definition download ::
  "string \<Rightarrow> string \<Rightarrow> bool \<Rightarrow> bool \<Rightarrow> nat option \<Rightarrow> string option \<Rightarrow> login option \<Rightarrow> bool
   \<Rightarrow> unit io" where
  "download src dst force makedirs ftp server login close =
     bnd (ftp_object ftp server login) (\<lambda>sid.
     bnd (ftp_type_i sid) (\<lambda>u w.
       if os_path_isfile dst w \<and> \<not> force
       then bnd (if close then ftp_quit sid else ret ()) (\<lambda>u. throw FileExistsError) w
       else
         bnd (\<lambda>w. if \<not> os_path_exists (os_path_dirname dst) w \<and> makedirs
                   then bnd (log_record (CreateDirectories dst))
                          (\<lambda>u. os_makedirs (os_path_dirname dst)) w
                   else ret () w) (\<lambda>u.
         bnd (\<lambda>w. if os_path_isfile dst w \<and> force
                   then log_record (DownloadingOverwrite src dst) w
                   else log_record (Downloading src dst) w) (\<lambda>u.
         bnd (open_wb dst) (\<lambda>f.
         bnd (ftp_retrbinary sid src) (\<lambda>content.
         bnd (file_write f content) (\<lambda>u.
         (if close then ftp_quit sid else ret ())))))) w))"

definition upload ::
  "string \<Rightarrow> string \<Rightarrow> bool \<Rightarrow> bool \<Rightarrow> nat option \<Rightarrow> string option \<Rightarrow> login option \<Rightarrow> bool
   \<Rightarrow> unit io" where
  "upload src dst force makedirs ftp server login close =
     bnd (ftp_object ftp server login) (\<lambda>sid.
     bnd (if \<not> force then ls dst (Some sid) None None False else ret []) (\<lambda>listed.
       if \<not> force \<and> listed \<noteq> []
       then bnd (if close then ftp_quit sid else ret ()) (\<lambda>u. throw FileExistsError)
       else
         (let dir = rsplit_head dst
          in bnd (if makedirs
                  then bnd (is_dir dir None None None True) (\<lambda>b.
                         if \<not> b then mkdirs dir (Some sid) None None False else ret ())
                  else ret ()) (\<lambda>u.
             bnd (ls dst (Some sid) None None False) (\<lambda>listed2.
             bnd (if listed2 \<noteq> [] \<and> force
                  then log_record (UploadingOverwrite src dst)
                  else log_record (Uploading src dst)) (\<lambda>u.
             bnd (ftp_type_i sid) (\<lambda>u.
             bnd (open_rb src) (\<lambda>f.
             bnd (ftp_storbinary sid dst f) (\<lambda>u.
             (if close then ftp_quit sid else ret ()))))))))))"

section \<open>Tree walker\<close>

text \<open>
  \<open>re.search\<close> is a parameter \<open>re\<close> of the walker.  The source's test
  \<open>pattern and re.search(pattern, path) or not pattern\<close>:
\<close>

definition matches :: "(string \<Rightarrow> string \<Rightarrow> bool) \<Rightarrow> string option \<Rightarrow> string \<Rightarrow> bool" where
  "matches re pattern path = (truthy pattern \<and> re (the pattern) path \<or> \<not> truthy pattern)"

text \<open>
  The generator \<open>tree\<close>, run to its end: the list of the paths it yields.  The recursion
  follows the remote tree, so it carries fuel: \<open>None\<close> means the fuel ran out before the walk
  ended.  \<open>tree_items\<close> is the \<open>for\<close> loop over the listing.
\<close>

fun tree_fuel ::
  "(string \<Rightarrow> string \<Rightarrow> bool) \<Rightarrow> nat \<Rightarrow> string \<Rightarrow> string option \<Rightarrow> nat \<Rightarrow> nat \<Rightarrow> world
   \<Rightarrow> ((exn + string list) \<times> world) option"
and tree_items ::
  "(string \<Rightarrow> string \<Rightarrow> bool) \<Rightarrow> nat \<Rightarrow> string list \<Rightarrow> string option \<Rightarrow> nat \<Rightarrow> nat \<Rightarrow> world
   \<Rightarrow> ((exn + string list) \<times> world) option" where
  "tree_fuel re 0 src pattern sid depth w = None"
| "tree_fuel re (Suc n) src pattern sid depth w =
     (case ls src (Some sid) None None False w of
        (Inl e, w1) \<Rightarrow> Some (Inl e, w1)
      | (Inr paths, w1) \<Rightarrow>
          (case tree_items re n paths pattern sid depth w1 of
             None \<Rightarrow> None
           | Some (Inl e, w2) \<Rightarrow> Some (Inl e, w2)
           | Some (Inr ys, w2) \<Rightarrow>
               if depth = 0
               then (case ftp_quit sid w2 of
                       (Inl e, w3) \<Rightarrow> Some (Inl e, w3)
                     | (Inr u, w3) \<Rightarrow> Some (Inr ys, w3))
               else Some (Inr ys, w2)))"
| "tree_items re n [] pattern sid depth w = Some (Inr [], w)"
| "tree_items re n (path # paths) pattern sid depth w =
     (case is_dir path (Some sid) None None False w of
        (Inl e, w1) \<Rightarrow> Some (Inl e, w1)
      | (Inr b, w1) \<Rightarrow>
          (case (if b then tree_fuel re n path pattern sid (depth + 1) w1
                 else Some (Inr (if matches re pattern path then [path] else []), w1)) of
             None \<Rightarrow> None
           | Some (Inl e, w2) \<Rightarrow> Some (Inl e, w2)
           | Some (Inr ys, w2) \<Rightarrow>
               (case tree_items re n paths pattern sid depth w2 of
                  None \<Rightarrow> None
                | Some (Inl e, w3) \<Rightarrow> Some (Inl e, w3)
                | Some (Inr zs, w3) \<Rightarrow> Some (Inr (ys @ zs), w3))))"

definition tree ::
  "(string \<Rightarrow> string \<Rightarrow> bool) \<Rightarrow> nat \<Rightarrow> string \<Rightarrow> string option \<Rightarrow> nat option \<Rightarrow> string option
   \<Rightarrow> login option \<Rightarrow> world \<Rightarrow> ((exn + string list) \<times> world) option" where
  "tree re n src pattern ftp server login w =
     (case ftp_object ftp server login w of
        (Inl e, w1) \<Rightarrow> Some (Inl e, w1)
      | (Inr sid, w1) \<Rightarrow> tree_fuel re n src pattern sid 0 w1)"

text \<open>The files below a node, depth-first, under the names a listing gives them.\<close>

fun files_under :: "string \<Rightarrow> node \<Rightarrow> string list" where
  "files_under p (File c) = [p]"
| "files_under p (Dir cs) =
     concat (map (\<lambda>nc. files_under (child_path p (fst nc)) (snd nc)) cs)"

fun height :: "node \<Rightarrow> nat" where
  "height (File c) = 0"
| "height (Dir cs) = Suc (fold max (map (\<lambda>nc. height (snd nc)) cs) 0)"

section \<open>Transfer engine\<close>

text \<open>The dict \<open>data\<close> put on the queue, with the keys \<open>src\<close>, \<open>dst\<close>, \<open>force\<close>, \<open>makedirs\<close>.\<close>

record item =
  i_src :: string
  i_dst :: string
  i_force :: bool
  i_makedirs :: bool

definition get_retries :: "world \<Rightarrow> int" where
  "get_retries w = (case cfg_retries (CFG w) of None \<Rightarrow> 5 | Some r \<Rightarrow> r)"

definition get_connections :: "world \<Rightarrow> int" where
  "get_connections w = (case cfg_connections (CFG w) of None \<Rightarrow> 5 | Some c \<Rightarrow> c)"

definition py_range :: "int \<Rightarrow> nat list" where
  "py_range n = [0..<nat n]"

text \<open>
  The body of \<open>except Exception as e\<close> in attempt \<open>i\<close>: the record \<open>Retry i+1\<close> and
  \<open>time.sleep(i**i+0.2)\<close>.
\<close>

definition except_body :: "item \<Rightarrow> nat \<Rightarrow> unit io" where
  "except_body d i =
     bnd (log_record (Retry (i + 1) (i_src d))) (\<lambda>u. time_sleep (of_nat (i ^ i) + 1 / 5))"

text \<open>
  The retry loop \<open>for i in range(retries): try: ...; break; except Exception: ...\<close> over the
  list of indices.  The value says how the loop ended: \<open>True\<close> by \<open>break\<close>, \<open>False\<close> by
  exhaustion, the case in which Python runs the \<open>else\<close> clause of the \<open>for\<close>.  An
  exception raised inside the \<open>except\<close> clause leaves the loop and the worker.
\<close>

fun attempts :: "(item \<Rightarrow> unit io) \<Rightarrow> item \<Rightarrow> nat list \<Rightarrow> bool io" where
  "attempts op d [] w = (Inr False, w)"
| "attempts op d (i # is) w =
     (case op d w of
        (Inr u, w1) \<Rightarrow> (Inr True, w1)
      | (Inl e, w1) \<Rightarrow>
          (case except_body d i w1 of
             (Inl e', w2) \<Rightarrow> (Inl e', w2)
           | (Inr u, w2) \<Rightarrow> attempts op d is w2))"

text \<open>
  What a worker does with one dequeued item.  In the \<open>else\<close> clause the source appends the
  source path to \<open>result\<close> and then evaluates \<open>LOG.exception(e)\<close>; Python 3 unbinds \<open>e\<close> at
  the end of the \<open>except\<close> clause, so that evaluation raises \<open>UnboundLocalError\<close>.
\<close>

definition worker_item ::
  "(item \<Rightarrow> unit io) \<Rightarrow> item \<Rightarrow> string list \<Rightarrow> world \<Rightarrow> (exn + unit) \<times> string list \<times> world" where
  "worker_item op d result w =
     (case attempts op d (py_range (get_retries w)) w of
        (Inr True, w1) \<Rightarrow> (Inr (), result, w1)
      | (Inr False, w1) \<Rightarrow> (Inl UnboundLocalError, result @ [i_src d], w1)
      | (Inl e, w1) \<Rightarrow> (Inl e, result, w1))"

text \<open>
  The loop \<open>while not queue.empty(): data = queue.get(True)\<close> of a worker that is the only
  consumer of the queue.
\<close>

fun worker_loop ::
  "(item \<Rightarrow> unit io) \<Rightarrow> item list \<Rightarrow> string list \<Rightarrow> world
   \<Rightarrow> (exn + unit) \<times> item list \<times> string list \<times> world" where
  "worker_loop op [] result w = (Inr (), [], result, w)"
| "worker_loop op (d # queue) result w =
     (case worker_item op d result w of
        (Inr u, result1, w1) \<Rightarrow> worker_loop op queue result1 w1
      | (Inl e, result1, w1) \<Rightarrow> (Inl e, queue, result1, w1))"

text \<open>
  A worker: the loop inside \<open>with Ftp(ftp, server, login) as ftp\<close>.  The two workers of the
  source differ in the single-item operation only.
\<close>

definition ftp_worker ::
  "(nat \<Rightarrow> item \<Rightarrow> unit io) \<Rightarrow> item list \<Rightarrow> nat option \<Rightarrow> string option \<Rightarrow> login option
   \<Rightarrow> string list \<Rightarrow> world \<Rightarrow> (exn + unit) \<times> item list \<times> string list \<times> world" where
  "ftp_worker op queue ftp server login result w =
     (case Ftp_init ftp server login w of
        (Inl e, w1) \<Rightarrow> (Inl e, queue, result, w1)
      | (Inr sid, w1) \<Rightarrow>
          (case worker_loop (op sid) queue result w1 of
             (r, queue1, result1, w2) \<Rightarrow>
               (case Ftp_exit sid w2 of
                  (Inl e, w3) \<Rightarrow> (Inl e, queue1, result1, w3)
                | (Inr u, w3) \<Rightarrow> (r, queue1, result1, w3))))"

definition upload_item :: "string option \<Rightarrow> login option \<Rightarrow> nat \<Rightarrow> item \<Rightarrow> unit io" where
  "upload_item server login sid d =
     upload (i_src d) (i_dst d) (i_force d) (i_makedirs d) (Some sid) server login False"

definition download_item :: "string option \<Rightarrow> login option \<Rightarrow> nat \<Rightarrow> item \<Rightarrow> unit io" where
  "download_item server login sid d =
     download (i_src d) (i_dst d) (i_force d) (i_makedirs d) (Some sid) server login False"

definition ftp_worker_upload ::
  "item list \<Rightarrow> nat option \<Rightarrow> string option \<Rightarrow> login option \<Rightarrow> string list \<Rightarrow> world
   \<Rightarrow> (exn + unit) \<times> item list \<times> string list \<times> world" where
  "ftp_worker_upload queue ftp server login result =
     ftp_worker (upload_item server login) queue ftp server login result"

definition ftp_worker_download ::
  "item list \<Rightarrow> nat option \<Rightarrow> string option \<Rightarrow> login option \<Rightarrow> string list \<Rightarrow> world
   \<Rightarrow> (exn + unit) \<times> item list \<times> string list \<times> world" where
  "ftp_worker_download queue ftp server login result =
     ftp_worker (download_item server login) queue ftp server login result"

subsection \<open>The pool\<close>

text \<open>
  \<open>Pool(n, worker, (queue, ftp, server, login, result))\<close> starts \<open>n\<close> processes that each
  run the worker as their initializer.  The queue and the servers are shared; \<open>result\<close> is
  an ordinary list, so every process appends to its own copy.  The processes interleave; a
  schedule (the list of the process indices in the order in which they take their next step)
  makes the run a function.  A process is at one of these places:
  \<^item> \<open>Start\<close>: before \<open>Ftp(ftp, server, login)\<close>;
  \<^item> \<open>AtTest sid\<close>: about to evaluate \<open>queue.empty()\<close>;
  \<^item> \<open>AtGet sid\<close>: about to call \<open>queue.get(True)\<close>, which waits while the queue is empty;
  \<^item> \<open>Exited\<close>: the worker returned;
  \<^item> \<open>Died e\<close>: the worker raised \<open>e\<close>.
  The parent calls \<open>pool.close()\<close> right after starting the pool, so a process that died is
  not replaced.  Every item put on the queue is there when the first process looks at it.
\<close>

datatype pc = Start | AtTest nat | AtGet nat | Exited | Died exn

record proc =
  p_pc :: pc
  p_result :: "string list"

record pool =
  p_world :: world
  p_queue :: "item list"
  p_procs :: "proc list"

definition step ::
  "(nat \<Rightarrow> item \<Rightarrow> unit io) \<Rightarrow> nat option \<Rightarrow> string option \<Rightarrow> login option \<Rightarrow> nat \<Rightarrow> pool
   \<Rightarrow> pool" where
  "step op ftp server login k st =
     (if k < length (p_procs st)
      then (let p = p_procs st ! k
            in case p_pc p of
                 Start \<Rightarrow>
                   (case Ftp_init ftp server login (p_world st) of
                      (Inl e, w1) \<Rightarrow>
                        st\<lparr>p_world := w1, p_procs := (p_procs st)[k := p\<lparr>p_pc := Died e\<rparr>]\<rparr>
                    | (Inr sid, w1) \<Rightarrow>
                        st\<lparr>p_world := w1, p_procs := (p_procs st)[k := p\<lparr>p_pc := AtTest sid\<rparr>]\<rparr>)
               | AtTest sid \<Rightarrow>
                   if p_queue st = []
                   then (case Ftp_exit sid (p_world st) of
                           (Inl e, w1) \<Rightarrow>
                             st\<lparr>p_world := w1, p_procs := (p_procs st)[k := p\<lparr>p_pc := Died e\<rparr>]\<rparr>
                         | (Inr u, w1) \<Rightarrow>
                             st\<lparr>p_world := w1, p_procs := (p_procs st)[k := p\<lparr>p_pc := Exited\<rparr>]\<rparr>)
                   else st\<lparr>p_procs := (p_procs st)[k := p\<lparr>p_pc := AtGet sid\<rparr>]\<rparr>
               | AtGet sid \<Rightarrow>
                   (case p_queue st of
                      [] \<Rightarrow> st
                    | d # queue \<Rightarrow>
                        (case worker_item (op sid) d (p_result p) (p_world st) of
                           (Inr u, result1, w1) \<Rightarrow>
                             st\<lparr>p_world := w1, p_queue := queue,
                                p_procs := (p_procs st)[k := \<lparr>p_pc = AtTest sid, p_result = result1\<rparr>]\<rparr>
                         | (Inl e, result1, w1) \<Rightarrow>
                             (case Ftp_exit sid w1 of
                                (Inl e', w2) \<Rightarrow>
                                  st\<lparr>p_world := w2, p_queue := queue,
                                     p_procs := (p_procs st)[k := \<lparr>p_pc = Died e', p_result = result1\<rparr>]\<rparr>
                              | (Inr u, w2) \<Rightarrow>
                                  st\<lparr>p_world := w2, p_queue := queue,
                                     p_procs := (p_procs st)[k := \<lparr>p_pc = Died e, p_result = result1\<rparr>]\<rparr>)))
               | Exited \<Rightarrow> st
               | Died e \<Rightarrow> st)
      else st)"

definition run_pool ::
  "(nat \<Rightarrow> item \<Rightarrow> unit io) \<Rightarrow> nat option \<Rightarrow> string option \<Rightarrow> login option \<Rightarrow> nat list \<Rightarrow> pool
   \<Rightarrow> pool" where
  "run_pool op ftp server login sched st = fold (step op ftp server login) sched st"

definition finished :: "proc \<Rightarrow> bool" where
  "finished p = (case p_pc p of Exited \<Rightarrow> True | Died e \<Rightarrow> True | _ \<Rightarrow> False)"

text \<open>
  \<open>_ftp_multiple\<close>: \<open>files\<close> is the dict as the list of its items.  \<open>pool.join()\<close> returns
  when every process has ended; the value is \<open>None\<close> when under the given schedule some
  process has not ended.  The list returned is the parent's \<open>result\<close>.
\<close>

definition ftp_multiple ::
  "nat list \<Rightarrow> (string \<times> string) list \<Rightarrow> string \<Rightarrow> bool \<Rightarrow> bool \<Rightarrow> nat option \<Rightarrow> string option
   \<Rightarrow> login option \<Rightarrow> world \<Rightarrow> ((exn + string list) \<times> world) option" where
  "ftp_multiple sched files typ force makedirs ftp server login w =
     (let queue = map (\<lambda>sd. \<lparr>i_src = fst sd, i_dst = snd sd, i_force = force,
                              i_makedirs = makedirs\<rparr>) files;
          result = [];
          n = get_connections w
      in if typ \<noteq> ''upload'' \<and> typ \<noteq> ''download'' then Some (Inl UnboundLocalError, w)
         else if n < 1 then Some (Inl ValueError, w)
         else (let op = (if typ = ''upload'' then upload_item server login
                         else download_item server login);
                   st = run_pool op ftp server login sched
                          \<lparr>p_world = w, p_queue = queue,
                           p_procs = replicate (nat n) \<lparr>p_pc = Start, p_result = result\<rparr>\<rparr>
               in if list_all finished (p_procs st) then Some (Inr result, p_world st)
                  else None))"

definition download_multiple ::
  "nat list \<Rightarrow> (string \<times> string) list \<Rightarrow> bool \<Rightarrow> bool \<Rightarrow> nat option \<Rightarrow> string option
   \<Rightarrow> login option \<Rightarrow> world \<Rightarrow> ((exn + string list) \<times> world) option" where
  "download_multiple sched files force makedirs ftp server login =
     ftp_multiple sched files ''download'' force makedirs ftp server login"

definition upload_multiple ::
  "nat list \<Rightarrow> (string \<times> string) list \<Rightarrow> bool \<Rightarrow> bool \<Rightarrow> nat option \<Rightarrow> string option
   \<Rightarrow> login option \<Rightarrow> world \<Rightarrow> ((exn + string list) \<times> world) option" where
  "upload_multiple sched files force makedirs ftp server login =
     ftp_multiple sched files ''upload'' force makedirs ftp server login"

subsection \<open>Directory transfers\<close>

text \<open>The dict \<open>{path: path.replace(src, dst) for path in tree(...)}\<close> of \<open>download_tree\<close>.\<close>

definition download_tree_files :: "string \<Rightarrow> string \<Rightarrow> string list \<Rightarrow> (string \<times> string) list" where
  "download_tree_files src dst paths = py_dict (map (\<lambda>path. (path, py_replace src dst path)) paths)"

definition download_tree ::
  "(string \<Rightarrow> string \<Rightarrow> bool) \<Rightarrow> nat \<Rightarrow> nat list \<Rightarrow> string \<Rightarrow> string \<Rightarrow> bool \<Rightarrow> string option \<Rightarrow> bool
   \<Rightarrow> nat option \<Rightarrow> string option \<Rightarrow> login option \<Rightarrow> world
   \<Rightarrow> ((exn + string list) \<times> world) option" where
  "download_tree re n sched src dst force pattern makedirs ftp server login w =
     (case tree re n src pattern ftp server login w of
        None \<Rightarrow> None
      | Some (Inl e, w1) \<Rightarrow> Some (Inl e, w1)
      | Some (Inr paths, w1) \<Rightarrow>
          download_multiple sched (download_tree_files src dst paths) force makedirs ftp server
            login w1)"

text \<open>
  \<open>str(Path(src))\<close> drops empty and \<open>.\<close> segments and a trailing slash; \<open>Path(src).glob('**/*')\<close>
  lists every entry below \<open>src\<close>, here with the flag \<open>is_file()\<close>.
\<close>

definition Path_str :: "string \<Rightarrow> string" where
  "Path_str p =
     (let segs = filter (\<lambda>s. s \<noteq> [] \<and> s \<noteq> ''.'') (py_split ''/'' p)
      in if p \<noteq> [] \<and> hd p = CHR ''/''
         then (if take 2 p = ''//'' \<and> take 3 p \<noteq> ''///'' then ''//'' else ''/'') @ py_join ''/'' segs
         else if segs = [] then ''.'' else py_join ''/'' segs)"

definition Path_child :: "string \<Rightarrow> string \<Rightarrow> string" where
  "Path_child base n =
     (if base = ''.'' then n else if last base = CHR ''/'' then base @ n else base @ ''/'' @ n)"

fun glob_all :: "string \<Rightarrow> node \<Rightarrow> (string \<times> bool) list" where
  "glob_all base (File c) = []"
| "glob_all base (Dir cs) =
     map (\<lambda>nc. (Path_child base (fst nc), is_File (Some (snd nc)))) cs
     @ concat (map (\<lambda>nc. glob_all (Path_child base (fst nc)) (snd nc)) cs)"

definition Path_glob :: "string \<Rightarrow> world \<Rightarrow> (string \<times> bool) list" where
  "Path_glob src w =
     (case os_stat (Path_str src) w of
        Inl e \<Rightarrow> []
      | Inr n \<Rightarrow> glob_all (Path_str src) n)"

definition upload_tree_files ::
  "(string \<Rightarrow> string \<Rightarrow> bool) \<Rightarrow> string \<Rightarrow> string \<Rightarrow> string option \<Rightarrow> (string \<times> bool) list
   \<Rightarrow> (string \<times> string) list" where
  "upload_tree_files re src dst pattern walked =
     py_dict (map (\<lambda>path. (path, py_replace src dst path))
                (filter (\<lambda>path. matches re pattern path)
                   (map fst (filter (\<lambda>pf. snd pf) walked))))"

definition upload_tree ::
  "(string \<Rightarrow> string \<Rightarrow> bool) \<Rightarrow> nat list \<Rightarrow> string \<Rightarrow> string \<Rightarrow> bool \<Rightarrow> string option \<Rightarrow> bool
   \<Rightarrow> nat option \<Rightarrow> string option \<Rightarrow> login option \<Rightarrow> world
   \<Rightarrow> ((exn + string list) \<times> world) option" where
  "upload_tree re sched src dst force pattern makedirs ftp server login w =
     upload_multiple sched (upload_tree_files re src dst pattern (Path_glob src w)) force makedirs
       ftp server login w"

section \<open>Well-formed sessions and trees\<close>

text \<open>
  A name of an entry is not empty, not \<open>.\<close> or \<open>..\<close>, and has no slash.  A session is in
  order when it is open, its cursor consists of names and is a directory of its server: the
  state of every session opened by \<open>get_ftp\<close> and moved by \<open>CWD\<close> only.
\<close>

definition valid_name :: "string \<Rightarrow> bool" where
  "valid_name n = (n \<noteq> [] \<and> n \<noteq> ''.'' \<and> n \<noteq> ''..'' \<and> CHR ''/'' \<notin> set n)"

definition session_ok :: "world \<Rightarrow> nat \<Rightarrow> bool" where
  "session_ok w sid =
     (case target w sid of
        None \<Rightarrow> False
      | Some (s, r) \<Rightarrow> list_all valid_name (s_cwd s) \<and> is_Dir (fs_lookup r (s_cwd s)))"

text \<open>
  The \<open>Retry\<close> records of the log: the worker writes one after every attempt that raised
  (\<open>LOG.info(f'Retry {i+1} on data transfer {src}')\<close>), and nothing else writes one.
\<close>

definition is_Retry :: "log_record \<Rightarrow> bool" where
  "is_Retry r = (case r of Retry k s \<Rightarrow> True | _ \<Rightarrow> False)"

definition retries_logged :: "world \<Rightarrow> log_record list" where
  "retries_logged w = filter is_Retry (LOG w)"

text \<open>
  Relations between the world before and the world after a computation.  \<open>steady R m\<close>:
  \<open>m\<close> takes every world to one related by \<open>R\<close>, whatever its outcome.  \<open>respected R\<close>:
  \<open>R\<close> is a preorder that every command of a session, every operation on the local disk,
  the opening of a session and every log record other than \<open>Retry\<close> respect.
\<close>

definition steady :: "(world \<Rightarrow> world \<Rightarrow> bool) \<Rightarrow> 'a io \<Rightarrow> bool" where
  "steady R m = (\<forall>w. R w (snd (m w)))"

definition respected :: "(world \<Rightarrow> world \<Rightarrow> bool) \<Rightarrow> bool" where
  "respected R =
     (reflp R \<and> transp R \<and>
      (\<forall>sid. steady R (ftp_pwd sid)) \<and>
      (\<forall>sid p. steady R (ftp_cwd sid p)) \<and>
      (\<forall>sid p. steady R (ftp_mkd sid p)) \<and>
      (\<forall>sid p. steady R (ftp_nlst sid p)) \<and>
      (\<forall>sid. steady R (ftp_type_i sid)) \<and>
      (\<forall>sid p c. steady R (ftp_storbinary sid p c)) \<and>
      (\<forall>sid p. steady R (ftp_retrbinary sid p)) \<and>
      (\<forall>sid. steady R (ftp_quit sid)) \<and>
      (\<forall>p. steady R (os_makedirs p)) \<and>
      (\<forall>p. steady R (open_rb p)) \<and>
      (\<forall>p. steady R (open_wb p)) \<and>
      (\<forall>p c. steady R (file_write p c)) \<and>
      (\<forall>l. steady R (get_ftp l)) \<and>
      (\<forall>r. \<not> is_Retry r \<longrightarrow> steady R (log_record r)))"



text \<open>
  The vocabulary of the claim about \<open>mkdirs\<close>: the prefixes \<open>'/'.join(dirs[:i+1])\<close> of a
  path in the order of the loop, the arguments of the \<open>MKD\<close> commands that a trace holds for
  a session, and whether a path names a directory for a session.
\<close>

definition path_prefixes :: "string \<Rightarrow> string list" where
  "path_prefixes path =
     (let dirs = py_split ''/'' path
      in map (\<lambda>i. py_join ''/'' (take (i + 1) dirs)) [0..<length dirs])"

fun mkd_of :: "nat \<Rightarrow> event \<Rightarrow> string list" where
  "mkd_of sid (Cmd k (MKD d)) = (if k = sid then [d] else [])"
| "mkd_of sid e = []"

definition mkd_sent :: "nat \<Rightarrow> event list \<Rightarrow> string list" where
  "mkd_sent sid tr = concat (map (mkd_of sid) tr)"

definition names_dir :: "world \<Rightarrow> nat \<Rightarrow> string \<Rightarrow> bool" where
  "names_dir w sid d =
     (case target w sid of
        None \<Rightarrow> False
      | Some (s, r) \<Rightarrow> is_Dir (fs_lookup r (resolve (s_cwd s) d)))"

text \<open>
  \<open>makeDirectories\<close> in the words of the spec: for each prefix, root to leaf, if it is not
  a directory, issue a make-directory command.  The tree afterwards and the prefixes for
  which the command was issued; a command that the server refuses ends the run.
\<close>

fun mkdirs_spec :: "node \<Rightarrow> string list \<Rightarrow> string list \<Rightarrow> node \<times> string list" where
  "mkdirs_spec r cur [] = (r, [])"
| "mkdirs_spec r cur (d # ds) =
     (if d = [] \<or> is_Dir (fs_lookup r (resolve cur d)) then mkdirs_spec r cur ds
      else if fs_lookup r (resolve cur d) \<noteq> None then (r, [d])
      else (case fs_put r (resolve cur d) (Dir []) of
              None \<Rightarrow> (r, [d])
            | Some r' \<Rightarrow> (fst (mkdirs_spec r' cur ds), d # snd (mkdirs_spec r' cur ds))))"

text \<open>
  The vocabulary of the claim about \<open>tree\<close>.  A tree is well formed when the names in
  every directory are names and distinct.  \<open>node_at\<close> is what a path names for a session,
  \<open>files_below\<close> the files below it under the names a listing gives them, depth-first in
  listing order, and \<open>depth_below\<close> the number of directory levels below it.
\<close>

fun wf_node :: "node \<Rightarrow> bool" where
  "wf_node (File c) = True"
| "wf_node (Dir cs) =
     (distinct (map fst cs) \<and> list_all (\<lambda>nc. valid_name (fst nc)) cs \<and>
      list_all (\<lambda>nc. wf_node (snd nc)) cs)"

definition server_ok :: "world \<Rightarrow> nat \<Rightarrow> bool" where
  "server_ok w sid = (case target w sid of None \<Rightarrow> False | Some (s, r) \<Rightarrow> wf_node r)"

definition node_at :: "world \<Rightarrow> nat \<Rightarrow> string \<Rightarrow> node option" where
  "node_at w sid p =
     (case target w sid of None \<Rightarrow> None | Some (s, r) \<Rightarrow> fs_lookup r (resolve (s_cwd s) p))"

definition files_below :: "string \<Rightarrow> node option \<Rightarrow> string list" where
  "files_below p n = (case n of None \<Rightarrow> [] | Some nd \<Rightarrow> files_under p nd)"

definition depth_below :: "node option \<Rightarrow> nat" where
  "depth_below n = (case n of None \<Rightarrow> 0 | Some nd \<Rightarrow> height nd)"

section \<open>A concrete world\<close>

text \<open>
  A server \<open>files.example\<close>, registered as \<open>'main'\<close>, holding \<open>a.txt\<close>, \<open>a.csv\<close>,
  \<open>dir/b.txt\<close> and \<open>remote/x\<close>; a local disk holding \<open>/local/x\<close>, \<open>/local/y\<close> and, in the
  working directory, \<open>report.csv\<close>; the default configuration (no \<open>retries\<close>, no
  \<open>connections\<close>).  \<open>world1\<close> is that world after one session has been opened.
\<close>

definition login0 :: login where
  "login0 = \<lparr>host = ''files.example'', user = ''u'', passwd = ''p'', tls = None\<rparr>"

definition world0 :: world where
  "world0 =
     \<lparr>CFG = \<lparr>cfg_server = [(''main'', login0)], cfg_retries = None, cfg_connections = None\<rparr>,
      hosts = [(''files.example'',
                \<lparr>accounts = [(''u'', ''p'')],
                 fs = Dir [(''a.txt'', File ''A''), (''a.csv'', File ''B''),
                           (''dir'', Dir [(''b.txt'', File ''C'')]),
                           (''remote'', Dir [(''x'', File ''old'')])]\<rparr>),
               (''walk.example'',
                \<lparr>accounts = [(''u'', ''p'')],
                 fs = Dir [(''a.txt'', File ''A''), (''a.csv'', File ''B''),
                           (''dir'', Dir [(''b.txt'', File ''C'')])]\<rparr>)],
      sessions = [],
      disk = Dir [(''local'', Dir [(''x'', File ''new''), (''y'', File ''more'')]),
                  (''report.csv'', File ''stale'')],
      os_cwd = [], LOG = [], trace = []\<rparr>"

definition world1 :: world where
  "world1 = snd (get_ftp login0 world0)"



text \<open>
  A second server \<open>walk.example\<close> holds the files \<open>a.txt\<close>, \<open>a.csv\<close> and \<open>dir/b.txt\<close> and
  nothing else; \<open>world_walk\<close> is \<open>world0\<close> after a session to it has been opened.
  \<open>search_txt\<close> stands for \<open>re.search\<close> on the one pattern \<open>\.txt$\<close>: the path ends in
  \<open>.txt\<close>.
\<close>

definition world_walk :: world where
  "world_walk = snd (get_ftp (login0\<lparr>host := ''walk.example''\<rparr>) world0)"

definition search_txt :: "string \<Rightarrow> string \<Rightarrow> bool" where
  "search_txt pattern path = (pattern = CHR 0x5C # ''.txt$'' \<and> suffix ''.txt'' path)"

text \<open>
  Variants of the configuration: two connections, one connection, and a registry that holds
  a server \<open>'backup'\<close> but no server \<open>'main'\<close>.
\<close>

definition world_two :: world where
  "world_two = world0\<lparr>CFG := (CFG world0)\<lparr>cfg_connections := Some 2\<rparr>\<rparr>"

definition world_one :: world where
  "world_one = world0\<lparr>CFG := (CFG world0)\<lparr>cfg_connections := Some 1\<rparr>\<rparr>"

definition world_backup :: world where
  "world_backup = world0\<lparr>CFG := (CFG world0)\<lparr>cfg_server := [(''backup'', login0)]\<rparr>\<rparr>"

text \<open>The pool as \<open>_ftp_multiple\<close> starts it for an upload of \<open>files\<close> without \<open>force\<close> and \<open>makedirs\<close>.\<close>

definition upload_pool :: "(string \<times> string) list \<Rightarrow> nat \<Rightarrow> world \<Rightarrow> pool" where
  "upload_pool files n w =
     \<lparr>p_world = w,
      p_queue = map (\<lambda>sd. \<lparr>i_src = fst sd, i_dst = snd sd, i_force = False,
                             i_makedirs = False\<rparr>) files,
      p_procs = replicate n \<lparr>p_pc = Start, p_result = []\<rparr>\<rparr>"

section \<open>Facts about the string primitives\<close>


lemma py_join_Cons: "xs \<noteq> [] \<Longrightarrow> py_join sep (x # xs) = x @ sep @ py_join sep xs"
  by (cases xs) auto









section \<open>Destinations of a directory transfer\<close>



section \<open>Path resolution\<close>

lemma split_on_slash_free:
  "CHR ''/'' \<notin> set n \<Longrightarrow> split_on ''/'' acc (n @ rest) = split_on ''/'' (acc @ n) rest"
  by (induction n arbitrary: acc) auto

lemma split_on_slash: "split_on ''/'' acc (CHR ''/'' # rest) = acc # split_on ''/'' [] rest"
  by simp

lemma split_on_join:
  "cur \<noteq> [] \<Longrightarrow> \<forall>n\<in>set cur. CHR ''/'' \<notin> set n \<Longrightarrow>
   split_on ''/'' acc (py_join ''/'' cur) = (acc @ hd cur) # tl cur"
proof (induction cur arbitrary: acc)
  case Nil
  then show ?case by simp
next
  case (Cons n cur)
  show ?case
  proof (cases cur)
    case Nil
    then show ?thesis
      using Cons.prems split_on_slash_free [of n acc "[]"] by simp
  next
    case (Cons m ms)
    then have "split_on ''/'' acc (py_join ''/'' (n # cur))
                 = split_on ''/'' (acc @ n) (CHR ''/'' # py_join ''/'' cur)"
      using Cons.prems split_on_slash_free [of n acc "CHR ''/'' # py_join ''/'' cur"] by simp
    also have "\<dots> = (acc @ n) # split_on ''/'' [] (py_join ''/'' cur)"
      by (rule split_on_slash)
    also have "split_on ''/'' [] (py_join ''/'' cur) = hd cur # tl cur"
      using Cons.IH [of "[]"] Cons.prems Cons by simp
    finally show ?thesis using Cons by simp
  qed
qed

lemma norm_segs_names: "list_all valid_name xs \<Longrightarrow> norm_segs base xs = base @ xs"
  by (induction xs arbitrary: base) (auto simp: valid_name_def)

lemma resolve_render: "list_all valid_name cur \<Longrightarrow> resolve base (render cur) = cur"
proof (cases cur)
  case Nil
  then show ?thesis by (simp add: resolve_def render_def py_split_def)
next
  case (Cons n ns)
  assume v: "list_all valid_name cur"
  then have "\<forall>n\<in>set cur. CHR ''/'' \<notin> set n"
    by (auto simp: list_all_iff valid_name_def)
  then have "split_on ''/'' [] (py_join ''/'' cur) = cur"
    using split_on_join [of cur "[]"] Cons by simp
  then have "py_split ''/'' (render cur) = [] # cur"
    by (simp add: py_split_def render_def)
  then show ?thesis
    using v by (simp add: resolve_def render_def norm_segs_names)
qed

lemma norm_segs_valid:
  "list_all valid_name base \<Longrightarrow> \<forall>x\<in>set xs. CHR ''/'' \<notin> set x \<Longrightarrow>
   list_all valid_name (norm_segs base xs)"
proof (induction xs arbitrary: base)
  case Nil
  then show ?case by simp
next
  case (Cons x xs)
  have rest: "\<forall>x\<in>set xs. CHR ''/'' \<notin> set x" using Cons.prems(2) by simp
  have b: "list_all valid_name (butlast base)"
    using Cons.prems(1) by (auto simp: list_all_iff dest: in_set_butlastD)
  have "x \<noteq> [] \<Longrightarrow> x \<noteq> ''.'' \<Longrightarrow> x \<noteq> ''..'' \<Longrightarrow> valid_name x"
    using Cons.prems(2) by (simp add: valid_name_def)
  then have a: "x \<noteq> [] \<Longrightarrow> x \<noteq> ''.'' \<Longrightarrow> x \<noteq> ''..'' \<Longrightarrow> list_all valid_name (base @ [x])"
    using Cons.prems(1) by simp
  show ?case
    using Cons.IH [OF Cons.prems(1) rest] Cons.IH [OF b rest] Cons.IH [OF a rest]
    by auto
qed

lemma split_on_pieces_slash_free:
  "CHR ''/'' \<notin> set acc \<Longrightarrow> \<forall>x\<in>set (split_on ''/'' acc s). CHR ''/'' \<notin> set x"
  by (induction "''/''" acc s rule: split_on.induct) auto

lemma resolve_valid: "list_all valid_name cur \<Longrightarrow> list_all valid_name (resolve cur p)"
  unfolding resolve_def py_split_def
  using split_on_pieces_slash_free [of "[]" p]
  by (intro norm_segs_valid) auto

section \<open>Sessions and commands\<close>

lemma target_sent [simp]: "target (sent sid c w) k = target w k"
  by (auto simp: target_def sent_def split: option.splits)

lemma target_trace [simp]: "target (w\<lparr>trace := tr\<rparr>) k = target w k"
  by (auto simp: target_def split: option.splits)

lemma target_LOG [simp]: "target (w\<lparr>LOG := l\<rparr>) k = target w k"
  by (auto simp: target_def split: option.splits)

lemma target_SomeD:
  "target w sid = Some (s, r) \<Longrightarrow>
   sid < length (sessions w) \<and> s = sessions w ! sid \<and> s_open s \<and>
   (\<exists>h. map_of (hosts w) (s_host s) = Some h \<and> r = fs h)"
  by (auto simp: target_def split: if_splits option.splits)

lemma target_cursor [simp]:
  "target w sid = Some (s, r) \<Longrightarrow>
   target (w\<lparr>sessions := (sessions w)[sid := s\<lparr>s_cwd := t\<rparr>]\<rparr>) sid = Some (s\<lparr>s_cwd := t\<rparr>, r)"
  by (auto simp: target_def split: if_splits option.splits)

lemma ftp_pwd_open [simp]:
  "target w sid = Some (s, r) \<Longrightarrow> ftp_pwd sid w = (Inr (render (s_cwd s)), sent sid PWD w)"
  by (simp add: ftp_pwd_def)

lemma ftp_cwd_open:
  "target w sid = Some (s, r) \<Longrightarrow>
   ftp_cwd sid p w =
     (if is_Dir (fs_lookup r (resolve (s_cwd s) p))
      then (Inr (), (sent sid (if p = ''..'' then CDUP else if p = [] then CWD ''.'' else CWD p) w)
                      \<lparr>sessions := (sessions w)[sid := s\<lparr>s_cwd := resolve (s_cwd s) p\<rparr>]\<rparr>)
      else (Inl error_perm, sent sid (if p = ''..'' then CDUP else if p = [] then CWD ''.'' else CWD p) w))"
  by (simp add: ftp_cwd_def Let_def sent_def)

lemma render_not_special [simp]: "render cur \<noteq> ''..''" "render cur \<noteq> []"
  by (auto simp: render_def)

text \<open>
  The probe on an open session in order, without closing: the answer is whether the path
  resolves to a directory, and the world differs by the commands sent only.
\<close>

lemma is_dir_probe:
  assumes t: "target w sid = Some (s, r)"
    and v: "list_all valid_name (s_cwd s)"
    and d: "is_Dir (fs_lookup r (s_cwd s))"
  shows "is_dir path (Some sid) server login False w =
           (Inr (is_Dir (fs_lookup r (resolve (s_cwd s) path))),
            w\<lparr>trace := trace w @
                 [Cmd sid PWD,
                  Cmd sid (if path = ''..'' then CDUP else if path = [] then CWD ''.'' else CWD path)]
                 @ (if is_Dir (fs_lookup r (resolve (s_cwd s) path))
                    then [Cmd sid (CWD (render (s_cwd s)))] else [])\<rparr>)"
proof -
  let ?t = "resolve (s_cwd s) path"
  let ?c = "if path = ''..'' then CDUP else if path = [] then CWD ''.'' else CWD path"
  have t1: "target (sent sid PWD w) sid = Some (s, r)" using t by simp
  have s_eq: "(sessions w)[sid := s] = sessions w"
    using target_SomeD [OF t] by (simp add: list_update_same_conv)
  show ?thesis
  proof (cases "is_Dir (fs_lookup r ?t)")
    case False
    then show ?thesis
      using t t1
      by (simp add: is_dir_def bnd_def ret_def ftp_object_def ftp_cwd_open sent_def)
  next
    case True
    let ?w1 = "(sent sid ?c (sent sid PWD w))\<lparr>sessions := (sessions w)[sid := s\<lparr>s_cwd := ?t\<rparr>]\<rparr>"
    have c1: "ftp_cwd sid path (sent sid PWD w) = (Inr (), ?w1)"
      using True ftp_cwd_open [OF t1, of path] by (simp add: sent_def)
    have t2: "target ?w1 sid = Some (s\<lparr>s_cwd := ?t\<rparr>, r)"
      using t by (auto simp: target_def sent_def split: if_splits option.splits)
    have rt: "resolve ?t (render (s_cwd s)) = s_cwd s"
      using v by (rule resolve_render)
    have c2: "ftp_cwd sid (render (s_cwd s)) ?w1 =
                (Inr (), (sent sid (CWD (render (s_cwd s))) ?w1)
                   \<lparr>sessions := (sessions ?w1)[sid := s\<lparr>s_cwd := ?t\<rparr>\<lparr>s_cwd := s_cwd s\<rparr>]\<rparr>)"
      using ftp_cwd_open [OF t2, of "render (s_cwd s)"] d rt by simp
    show ?thesis
      using t True c1 c2 s_eq
      by (simp add: is_dir_def bnd_def ret_def ftp_object_def sent_def)
  qed
qed


section \<open>The cursor after a directory probe\<close>



section \<open>The scoped session guard\<close>

lemma ftp_quit_open:
  "target w sid = Some (s, r) \<Longrightarrow>
   ftp_quit sid w =
     (Inr (), (sent sid QUIT w)\<lparr>sessions := (sessions w)[sid := s\<lparr>s_open := False\<rparr>]\<rparr>)"
  by (simp add: ftp_quit_def sent_def)

lemma target_closed:
  "target (w\<lparr>sessions := (sessions w)[sid := s\<lparr>s_open := False\<rparr>]\<rparr>) sid = None"
  by (auto simp: target_def)

text \<open>
  Claim C2 fails where it says that a session supplied by the caller is still open after the
  scope: \<open>__exit__\<close> calls \<open>quit\<close> on whatever session the guard holds.  Session \<open>0\<close> of
  \<open>world1\<close> is open and is handed to the guard; after the scope it is closed.
\<close>

theorem guard_closes_supplied_session:
  "s_open (sessions world1 ! 0) \<and>
   \<not> s_open (sessions (snd (with_Ftp (Some 0) None None ftp_pwd world1)) ! 0)"
  by code_simp

text \<open>
  Claim C2 as amended.  Whatever session the guard holds, created by it or supplied by the
  caller, and however the body ends (with a value or with an exception): if the session is
  still open when the body ends, the guard sends \<open>QUIT\<close> on it exactly once, the session is
  closed afterwards, and the outcome of the body is the outcome of the scope.
\<close>

theorem guard_quits_held_session_once:
  assumes "Ftp_init ftp server login w = (Inr sid, w1)"
    and "body sid w1 = (res, w2)"
    and "target w2 sid \<noteq> None"
  shows "fst (with_Ftp ftp server login body w) = res \<and>
         trace (snd (with_Ftp ftp server login body w)) = trace w2 @ [Cmd sid QUIT] \<and>
         target (snd (with_Ftp ftp server login body w)) sid = None"
proof -
  from assms(3) obtain s r where t: "target w2 sid = Some (s, r)" by auto
  have "with_Ftp ftp server login body w =
          (res, (sent sid QUIT w2)\<lparr>sessions := (sessions w2)[sid := s\<lparr>s_open := False\<rparr>]\<rparr>)"
    using assms(1,2) ftp_quit_open [OF t] by (simp add: with_Ftp_def Ftp_exit_def)
  then show ?thesis
    using target_closed [of "sent sid QUIT w2" sid s] by (simp add: sent_def)
qed

theorem guard_quits_held_session_once_witness:
  "Ftp_init (Some 0) None None world1 = (Inr 0, world1) \<and>
   target (snd (ftp_nlst 0 ''dir'' world1)) 0 \<noteq> None \<and>
   fst (with_Ftp (Some 0) None None (\<lambda>sid. ftp_nlst sid ''dir'') world1) = Inr [''dir/b.txt''] \<and>
   trace (snd (with_Ftp (Some 0) None None (\<lambda>sid. ftp_nlst sid ''dir'') world1))
     = trace (snd (ftp_nlst 0 ''dir'' world1)) @ [Cmd 0 QUIT] \<and>
   target (snd (with_Ftp (Some 0) None None (\<lambda>sid. ftp_nlst sid ''dir'') world1)) 0 = None"
proof -
  have i: "Ftp_init (Some 0) None None world1 = (Inr 0, world1)"
    by (simp add: Ftp_init_def ret_def)
  have b: "ftp_nlst 0 ''dir'' world1 = (fst (ftp_nlst 0 ''dir'' world1), snd (ftp_nlst 0 ''dir'' world1))"
    by simp
  have o: "target (snd (ftp_nlst 0 ''dir'' world1)) 0 \<noteq> None" by code_simp
  have v: "fst (ftp_nlst 0 ''dir'' world1) = Inr [''dir/b.txt'']" by code_simp
  show ?thesis
    using guard_quits_held_session_once [of "Some 0" None None world1 0 world1
        "\<lambda>sid. ftp_nlst sid ''dir''", OF i b o] i o v
    by simp
qed

section \<open>Relations that every operation respects\<close>

lemma steadyI: "(\<And>w. R w (snd (m w))) \<Longrightarrow> steady R m"
  by (simp add: steady_def)




lemma steady_ret: "reflp R \<Longrightarrow> steady R (ret x)"
  by (simp add: steady_def ret_def reflp_def)





lemma respectedD:
  assumes "respected R"
  shows "reflp R" "transp R"
    "steady R (ftp_pwd sid)" "steady R (ftp_cwd sid p)" "steady R (ftp_mkd sid p)"
    "steady R (ftp_nlst sid p)" "steady R (ftp_type_i sid)" "steady R (ftp_storbinary sid p c)"
    "steady R (ftp_retrbinary sid p)" "steady R (ftp_quit sid)" "steady R (os_makedirs p)"
    "steady R (open_rb p)" "steady R (open_wb p)" "steady R (file_write f c)"
    "steady R (get_ftp l)" "\<not> is_Retry r \<Longrightarrow> steady R (log_record r)"
  using assms unfolding respected_def by auto

lemma steady_get_ftp_from_config:
  assumes "respected R" shows "steady R (get_ftp_from_config n)"
proof (rule steadyI)
  fix w
  show "R w (snd (get_ftp_from_config n w))"
    using respectedD(1,15) [OF assms]
    by (auto simp: get_ftp_from_config_def steady_def reflp_def split: option.splits)
qed


lemma steady_Ftp_init:
  assumes "respected R" shows "steady R (Ftp_init ftp server login)"
  using steady_get_ftp_from_config [OF assms] respectedD(1,15) [OF assms]
  by (simp add: Ftp_init_def steady_ret split: option.splits)








section \<open>What writes \<open>Retry\<close> records\<close>

lemma retries_logged_upd [simp]:
  "retries_logged (w\<lparr>trace := tr\<rparr>) = retries_logged w"
  "retries_logged (w\<lparr>sessions := ss\<rparr>) = retries_logged w"
  "retries_logged (w\<lparr>hosts := hs\<rparr>) = retries_logged w"
  "retries_logged (w\<lparr>disk := dk\<rparr>) = retries_logged w"
  "retries_logged (sent sid c w) = retries_logged w"
  "retries_logged (set_fs h r w) = retries_logged w"
  by (simp_all add: retries_logged_def sent_def set_fs_def)


section \<open>The retry budget\<close>






section \<open>Sessions opened for a single probe\<close>









section \<open>Trees under \<open>MKD\<close>\<close>

lemma fs_put_lookup: "fs_put r t v = Some r' \<Longrightarrow> fs_lookup r' t = Some v"
proof (induction r t v arbitrary: r' rule: fs_put.induct)
  case (1 n v)
  then show ?case by simp
next
  case (2 c x xs v)
  then show ?case by simp
next
  case (3 cs x xs v)
  show ?case
  proof (cases "map_of cs x")
    case None
    then show ?thesis using "3.prems" by (auto simp: map_add_def split: if_splits)
  next
    case (Some c)
    then obtain c' where c': "fs_put c xs v = Some c'" and r': "r' = Dir (AList.update x c' cs)"
      using "3.prems" by (auto split: option.splits)
    have "fs_lookup c' xs = Some v" using "3.IH" [OF Some c'] .
    then show ?thesis by (simp add: r' update_conv')
  qed
qed

lemma fs_put_fresh_keeps_dirs:
  "fs_lookup r t = None \<Longrightarrow> fs_put r t v = Some r' \<Longrightarrow> is_Dir (fs_lookup r u) \<Longrightarrow>
   is_Dir (fs_lookup r' u)"
proof (induction r t v arbitrary: r' u rule: fs_put.induct)
  case (1 n v)
  then show ?case by simp
next
  case (2 c x xs v)
  then show ?case by simp
next
  case (3 cs x xs v)
  show ?case
  proof (cases u)
    case Nil
    then show ?thesis using "3.prems"(2) by (auto simp: is_Dir_def split: option.splits if_splits)
  next
    case (Cons y ys)
    show ?thesis
    proof (cases "map_of cs x")
      case None
      then have r': "r' = Dir (cs @ [(x, v)])" using "3.prems"(2) by (auto split: if_splits)
      from "3.prems"(3) Cons obtain c where "map_of cs y = Some c"
        by (auto simp: is_Dir_def split: option.splits)
      then show ?thesis using "3.prems"(3) Cons by (simp add: r' map_add_def)
    next
      case (Some c)
      then obtain c' where c': "fs_put c xs v = Some c'" and r': "r' = Dir (AList.update x c' cs)"
        using "3.prems"(2) by (auto split: option.splits)
      have n: "fs_lookup c xs = None" using "3.prems"(1) Some by simp
      show ?thesis
      proof (cases "y = x")
        case True
        then have "is_Dir (fs_lookup c ys)" using "3.prems"(3) Cons Some by simp
        then have "is_Dir (fs_lookup c' ys)" using "3.IH" [OF Some n c'] by blast
        then show ?thesis using True Cons by (simp add: r' update_conv')
      next
        case False
        then show ?thesis using "3.prems"(3) Cons by (simp add: r' update_conv')
      qed
    qed
  qed
qed

lemma map_entry_same: "map_of hs h = Some x \<Longrightarrow> f x = x \<Longrightarrow> AList.map_entry h f hs = hs"
  by (induction hs) (auto split: if_splits)

lemma map_entry_fs_twice:
  "AList.map_entry h (\<lambda>v. v\<lparr>fs := r2\<rparr>) (AList.map_entry h (\<lambda>v. v\<lparr>fs := r1\<rparr>) hs)
     = AList.map_entry h (\<lambda>v. v\<lparr>fs := r2\<rparr>) hs"
  by (induction hs) auto

lemma target_cong: "sessions w' = sessions w \<Longrightarrow> hosts w' = hosts w \<Longrightarrow> target w' k = target w k"
  by (auto simp: target_def split: option.splits)

lemma target_with_fs:
  assumes "target w sid = Some (s, r)"
    and "sessions w' = sessions w"
    and "hosts w' = AList.map_entry (s_host s) (\<lambda>v. v\<lparr>fs := r'\<rparr>) (hosts w)"
  shows "target w' sid = Some (s, r')"
  using assms target_SomeD [OF assms(1)]
  by (auto simp: target_def map_of_map_entry)

lemma hosts_same_fs:
  assumes "target w sid = Some (s, r)"
  shows "AList.map_entry (s_host s) (\<lambda>v. v\<lparr>fs := r\<rparr>) (hosts w) = hosts w"
proof -
  from target_SomeD [OF assms] obtain h where
    "map_of (hosts w) (s_host s) = Some h" and "r = fs h" by blast
  then show ?thesis by (intro map_entry_same [of _ _ h]) simp_all
qed

lemma ftp_mkd_open:
  "target w sid = Some (s, r) \<Longrightarrow>
   ftp_mkd sid d w =
     (if fs_lookup r (resolve (s_cwd s) d) \<noteq> None then (Inl error_perm, sent sid (MKD d) w)
      else (case fs_put r (resolve (s_cwd s) d) (Dir []) of
              None \<Rightarrow> (Inl error_perm, sent sid (MKD d) w)
            | Some r' \<Rightarrow> (Inr (), set_fs (s_host s) r' (sent sid (MKD d) w))))"
  by (simp add: ftp_mkd_def Let_def)

lemma mkd_sent_append [simp]: "mkd_sent sid (a @ b) = mkd_sent sid a @ mkd_sent sid b"
  by (simp add: mkd_sent_def)

lemma mkd_sent_simps [simp]:
  "mkd_sent sid [] = []"
  "mkd_sent sid (Cmd sid (MKD d) # tr) = d # mkd_sent sid tr"
  "mkd_sent sid (Cmd sid PWD # tr) = mkd_sent sid tr"
  "mkd_sent sid (Cmd sid (CWD p) # tr) = mkd_sent sid tr"
  "mkd_sent sid (Cmd sid CDUP # tr) = mkd_sent sid tr"
  by (simp_all add: mkd_sent_def)

section \<open>The loop of \<open>mkdirs\<close> against the spec\<close>

lemma mkdirs_loop_spec:
  assumes "target w sid = Some (s, r)"
    and "list_all valid_name (s_cwd s)"
    and "is_Dir (fs_lookup r (s_cwd s))"
  shows "\<exists>res w' tr.
           mkdirs_loop dirs is sid w = (res, w') \<and> sessions w' = sessions w \<and>
           hosts w' = AList.map_entry (s_host s)
             (\<lambda>v. v\<lparr>fs := fst (mkdirs_spec r (s_cwd s)
                                (map (\<lambda>i. py_join ''/'' (take (i + 1) dirs)) is))\<rparr>) (hosts w) \<and>
           trace w' = trace w @ tr \<and>
           mkd_sent sid tr = snd (mkdirs_spec r (s_cwd s)
                                (map (\<lambda>i. py_join ''/'' (take (i + 1) dirs)) is))"
  using assms
proof (induction "is" arbitrary: w r)
  case Nil
  then show ?case by (simp add: ret_def hosts_same_fs)
next
  case (Cons i "is")
  define d where "d = py_join ''/'' (take (i + 1) dirs)"
  define ds where "ds = map (\<lambda>i. py_join ''/'' (take (i + 1) dirs)) is"
  let ?cur = "s_cwd s"
  let ?t = "resolve ?cur d"
  note t = Cons.prems(1) and v = Cons.prems(2) and c = Cons.prems(3)
  have step: "mkdirs_loop dirs (i # is) sid =
      bnd (if d \<noteq> []
           then bnd (is_dir d (Some sid) None None False) (\<lambda>b.
                  if \<not> b
                  then bnd (log_record (CreateDirectoryOnFTP d)) (\<lambda>u. ftp_mkd sid d)
                  else ret ())
           else ret ())
        (\<lambda>u. mkdirs_loop dirs is sid)"
    unfolding d_def mkdirs_loop.simps Let_def by (rule refl)
  have lst: "map (\<lambda>i. py_join ''/'' (take (i + 1) dirs)) (i # is) = d # ds"
    by (simp add: d_def ds_def)
  have goal: "\<exists>res w' tr.
           mkdirs_loop dirs (i # is) sid w = (res, w') \<and> sessions w' = sessions w \<and>
           hosts w' = AList.map_entry (s_host s)
             (\<lambda>v. v\<lparr>fs := fst (mkdirs_spec r ?cur (d # ds))\<rparr>) (hosts w) \<and>
           trace w' = trace w @ tr \<and>
           mkd_sent sid tr = snd (mkdirs_spec r ?cur (d # ds))"
  proof (cases "d = []")
    case True
    then have "mkdirs_loop dirs (i # is) sid w = mkdirs_loop dirs is sid w"
      by (subst step) (simp add: bnd_def ret_def)
    then show ?thesis using Cons.IH [OF t v c] True by (simp add: ds_def)
  next
    case False
    let ?b = "is_Dir (fs_lookup r ?t)"
    let ?tr1 = "[Cmd sid PWD,
                 Cmd sid (if d = ''..'' then CDUP else if d = [] then CWD ''.'' else CWD d)]
                @ (if ?b then [Cmd sid (CWD (render ?cur))] else [])"
    let ?w1 = "w\<lparr>trace := trace w @ ?tr1\<rparr>"
    have p: "is_dir d (Some sid) None None False w = (Inr ?b, ?w1)"
      using is_dir_probe [OF t v c] .
    have t1: "target ?w1 sid = Some (s, r)" using t by simp
    have m1: "mkd_sent sid ?tr1 = []" by simp
    show ?thesis
    proof (cases ?b)
      case True
      then have e: "mkdirs_loop dirs (i # is) sid w = mkdirs_loop dirs is sid ?w1"
        using False p by (subst step) (simp add: bnd_def ret_def)
      from Cons.IH [OF t1 v c] obtain res w' tr where
        h: "mkdirs_loop dirs is sid ?w1 = (res, w')" "sessions w' = sessions ?w1"
           "hosts w' = AList.map_entry (s_host s)
              (\<lambda>v. v\<lparr>fs := fst (mkdirs_spec r ?cur ds)\<rparr>) (hosts ?w1)"
           "trace w' = trace ?w1 @ tr" "mkd_sent sid tr = snd (mkdirs_spec r ?cur ds)"
        unfolding ds_def by blast
      have r4: "trace w' = trace w @ (?tr1 @ tr)" using h(4) by simp
      have r5: "mkd_sent sid (?tr1 @ tr) = snd (mkdirs_spec r ?cur (d # ds))"
        using h(5) True m1 by simp
      have r3: "hosts w' = AList.map_entry (s_host s)
              (\<lambda>v. v\<lparr>fs := fst (mkdirs_spec r ?cur (d # ds))\<rparr>) (hosts w)"
        using h(3) True by simp
      have r2: "sessions w' = sessions w" using h(2) by simp
      have r1: "mkdirs_loop dirs (i # is) sid w = (res, w')" using e h(1) by simp
      show ?thesis
        using r1 r2 r3 r4 r5 by blast
    next
      case nb: False
      let ?w2 = "?w1\<lparr>LOG := LOG ?w1 @ [CreateDirectoryOnFTP d]\<rparr>"
      have t2: "target ?w2 sid = Some (s, r)" using t by simp
      have e: "mkdirs_loop dirs (i # is) sid w =
                 bnd (ftp_mkd sid d) (\<lambda>u. mkdirs_loop dirs is sid) ?w2"
        using False p nb by (subst step) (simp add: bnd_def ret_def log_record_def)
      show ?thesis
      proof (cases "fs_lookup r ?t \<noteq> None \<or> fs_put r ?t (Dir []) = None")
        case True
        then have k: "ftp_mkd sid d ?w2 = (Inl error_perm, sent sid (MKD d) ?w2)"
          using ftp_mkd_open [OF t2, of d] by (auto split: option.splits)
        have sp: "mkdirs_spec r ?cur (d # ds) = (r, [d])"
          using True False nb by (auto split: option.splits)
        have r1: "mkdirs_loop dirs (i # is) sid w = (Inl error_perm, sent sid (MKD d) ?w2)"
          using e k by (simp add: bnd_def)
        have r4: "trace (sent sid (MKD d) ?w2) = trace w @ (?tr1 @ [Cmd sid (MKD d)])"
          by (simp add: sent_def)
        have r5: "mkd_sent sid (?tr1 @ [Cmd sid (MKD d)]) = snd (mkdirs_spec r ?cur (d # ds))"
          unfolding sp using m1 by simp
        have r2: "sessions (sent sid (MKD d) ?w2) = sessions w" by (simp add: sent_def)
        have r3: "hosts (sent sid (MKD d) ?w2) = AList.map_entry (s_host s)
              (\<lambda>v. v\<lparr>fs := fst (mkdirs_spec r ?cur (d # ds))\<rparr>) (hosts w)"
          unfolding sp using hosts_same_fs [OF t] by (simp add: sent_def)
        show ?thesis
          using r1 r2 r3 r4 r5 by blast
      next
        case False
        then obtain r' where n: "fs_lookup r ?t = None" and pt: "fs_put r ?t (Dir []) = Some r'"
          by auto
        let ?w3 = "set_fs (s_host s) r' (sent sid (MKD d) ?w2)"
        have k: "ftp_mkd sid d ?w2 = (Inr (), ?w3)"
          using ftp_mkd_open [OF t2, of d] n pt by simp
        have t3: "target ?w3 sid = Some (s, r')"
          using target_with_fs [OF t, of ?w3 r'] by (simp add: set_fs_def sent_def)
        have c3: "is_Dir (fs_lookup r' ?cur)"
          using fs_put_fresh_keeps_dirs [OF n pt c] .
        have sp: "mkdirs_spec r ?cur (d # ds) =
                    (fst (mkdirs_spec r' ?cur ds), d # snd (mkdirs_spec r' ?cur ds))"
          using n pt \<open>d \<noteq> []\<close> nb by simp
        from Cons.IH [OF t3 v c3] obtain res w' tr where
          h: "mkdirs_loop dirs is sid ?w3 = (res, w')" "sessions w' = sessions ?w3"
             "hosts w' = AList.map_entry (s_host s)
                (\<lambda>v. v\<lparr>fs := fst (mkdirs_spec r' ?cur ds)\<rparr>) (hosts ?w3)"
             "trace w' = trace ?w3 @ tr" "mkd_sent sid tr = snd (mkdirs_spec r' ?cur ds)"
          unfolding ds_def by blast
        have r1: "mkdirs_loop dirs (i # is) sid w = (res, w')"
          using e k h(1) by (simp add: bnd_def)
        have r2: "sessions w' = sessions w" using h(2) by (simp add: set_fs_def sent_def)
        have r3: "hosts w' = AList.map_entry (s_host s)
                    (\<lambda>v. v\<lparr>fs := fst (mkdirs_spec r ?cur (d # ds))\<rparr>) (hosts w)"
          unfolding sp using h(3) by (simp add: set_fs_def sent_def map_entry_fs_twice)
        have r4: "trace w' = trace w @ (?tr1 @ Cmd sid (MKD d) # tr)"
          using h(4) by (simp add: set_fs_def sent_def)
        have r5: "mkd_sent sid (?tr1 @ Cmd sid (MKD d) # tr) = snd (mkdirs_spec r ?cur (d # ds))"
          unfolding sp using h(5) m1 by simp
        show ?thesis
          using r1 r2 r3 r4 r5 by blast
      qed
    qed
  qed
  then show ?case unfolding lst .
qed

section \<open>The spec of \<open>mkdirs\<close>\<close>

lemma mkdirs_spec_keeps_dirs:
  "is_Dir (fs_lookup r u) \<Longrightarrow> is_Dir (fs_lookup (fst (mkdirs_spec r cur ds)) u)"
proof (induction ds arbitrary: r)
  case Nil
  then show ?case by simp
next
  case (Cons d ds)
  show ?case
  proof (cases "d = [] \<or> is_Dir (fs_lookup r (resolve cur d))")
    case True
    then show ?thesis using Cons by auto
  next
    case False
    show ?thesis
    proof (cases "fs_lookup r (resolve cur d) \<noteq> None \<or> fs_put r (resolve cur d) (Dir []) = None")
      case True
      then show ?thesis using False Cons.prems by (auto split: option.splits)
    next
      case nf: False
      then obtain r' where n: "fs_lookup r (resolve cur d) = None"
        and p: "fs_put r (resolve cur d) (Dir []) = Some r'"
        by auto
      have "is_Dir (fs_lookup r' u)" using fs_put_fresh_keeps_dirs [OF n p Cons.prems] .
      then show ?thesis using Cons.IH [of r'] False n p by simp
    qed
  qed
qed

lemma mkdirs_spec_idem:
  "fst (mkdirs_spec (fst (mkdirs_spec r cur ds)) cur ds) = fst (mkdirs_spec r cur ds)"
proof (induction ds arbitrary: r)
  case Nil
  then show ?case by simp
next
  case (Cons d ds)
  show ?case
  proof (cases "d = [] \<or> is_Dir (fs_lookup r (resolve cur d))")
    case True
    then have e: "mkdirs_spec r cur (d # ds) = mkdirs_spec r cur ds" by auto
    have "d = [] \<or> is_Dir (fs_lookup (fst (mkdirs_spec r cur ds)) (resolve cur d))"
      using True mkdirs_spec_keeps_dirs by blast
    then show ?thesis using e Cons.IH [of r] by auto
  next
    case False
    show ?thesis
    proof (cases "fs_lookup r (resolve cur d) \<noteq> None \<or> fs_put r (resolve cur d) (Dir []) = None")
      case True
      then have "mkdirs_spec r cur (d # ds) = (r, [d])"
        using False by (auto split: option.splits)
      then show ?thesis by simp
    next
      case nf: False
      then obtain r' where n: "fs_lookup r (resolve cur d) = None"
        and p: "fs_put r (resolve cur d) (Dir []) = Some r'"
        by auto
      have e: "fst (mkdirs_spec r cur (d # ds)) = fst (mkdirs_spec r' cur ds)"
        using False n p by simp
      have "is_Dir (fs_lookup r' (resolve cur d))"
        using fs_put_lookup [OF p] by (simp add: is_Dir_def)
      then have "is_Dir (fs_lookup (fst (mkdirs_spec r' cur ds)) (resolve cur d))"
        by (rule mkdirs_spec_keeps_dirs)
      then have "mkdirs_spec (fst (mkdirs_spec r' cur ds)) cur (d # ds)
                   = mkdirs_spec (fst (mkdirs_spec r' cur ds)) cur ds"
        by simp
      then show ?thesis using e Cons.IH [of r'] by simp
    qed
  qed
qed

lemma mkdirs_spec_subseq: "subseq (snd (mkdirs_spec r cur ds)) ds"
proof (induction ds arbitrary: r)
  case Nil
  then show ?case by simp
next
  case (Cons d ds)
  show ?case
    using Cons.IH by (auto split: option.splits intro: subseq_Cons')
qed

lemma mkdirs_spec_not_dirs:
  "d \<in> set (snd (mkdirs_spec r cur ds)) \<Longrightarrow> d \<noteq> [] \<and> \<not> is_Dir (fs_lookup r (resolve cur d))"
proof (induction ds arbitrary: r)
  case Nil
  then show ?case by simp
next
  case (Cons x ds)
  show ?case
  proof (cases "x = [] \<or> is_Dir (fs_lookup r (resolve cur x))")
    case True
    then show ?thesis using Cons by auto
  next
    case False
    show ?thesis
    proof (cases "fs_lookup r (resolve cur x) \<noteq> None \<or> fs_put r (resolve cur x) (Dir []) = None")
      case True
      then have "mkdirs_spec r cur (x # ds) = (r, [x])"
        using False by (auto split: option.splits)
      then show ?thesis using Cons.prems False by simp
    next
      case nf: False
      then obtain r' where n: "fs_lookup r (resolve cur x) = None"
        and p: "fs_put r (resolve cur x) (Dir []) = Some r'"
        by auto
      have "d = x \<or> d \<in> set (snd (mkdirs_spec r' cur ds))"
        using Cons.prems False n p by simp
      then show ?thesis
      proof
        assume "d = x"
        then show ?thesis using False by simp
      next
        assume "d \<in> set (snd (mkdirs_spec r' cur ds))"
        then have "d \<noteq> [] \<and> \<not> is_Dir (fs_lookup r' (resolve cur d))" by (rule Cons.IH)
        then show ?thesis using fs_put_fresh_keeps_dirs [OF n p] by blast
      qed
    qed
  qed
qed

lemma py_join_append:
  "a \<noteq> [] \<Longrightarrow> b \<noteq> [] \<Longrightarrow> py_join sep (a @ b) = py_join sep a @ sep @ py_join sep b"
proof (induction a)
  case Nil
  then show ?case by simp
next
  case (Cons x a)
  show ?case
  proof (cases a)
    case Nil
    then show ?thesis using Cons.prems by (simp add: py_join_Cons)
  next
    case (Cons y ys)
    then show ?thesis using Cons.IH Cons.prems by (simp add: py_join_Cons)
  qed
qed

lemma prefixes_ordered:
  assumes "i < j" and "j < length dirs"
  shows "strict_prefix (py_join ''/'' (take (i + 1) dirs)) (py_join ''/'' (take (j + 1) dirs))"
proof -
  let ?a = "take (i + 1) dirs" and ?b = "drop (i + 1) (take (j + 1) dirs)"
  have "take (j + 1) dirs = ?a @ ?b"
    using assms by (metis add_le_mono1 append_take_drop_id less_imp_le_nat min.absorb1 take_take)
  moreover have "?a \<noteq> []" using assms by auto
  moreover have "?b \<noteq> []" using assms by auto
  ultimately have "py_join ''/'' (take (j + 1) dirs)
                     = py_join ''/'' ?a @ ''/'' @ py_join ''/'' ?b"
    using py_join_append [of ?a ?b "''/''"] by simp
  then show ?thesis by (simp add: strict_prefix_def)
qed

lemma path_prefixes_sorted: "sorted_wrt strict_prefix (path_prefixes path)"
  unfolding path_prefixes_def Let_def sorted_wrt_map
  using prefixes_ordered by (simp add: sorted_wrt_iff_nth_less)

lemma mkdirs_call:
  assumes "target w sid = Some (s, r)"
    and "list_all valid_name (s_cwd s)"
    and "is_Dir (fs_lookup r (s_cwd s))"
    and "mkdirs path (Some sid) server login close w = (res, w')"
  shows "sessions w' = sessions w \<and>
         hosts w' = AList.map_entry (s_host s)
           (\<lambda>v. v\<lparr>fs := fst (mkdirs_spec r (s_cwd s) (path_prefixes path))\<rparr>) (hosts w) \<and>
         mkd_sent sid (drop (length (trace w)) (trace w'))
           = snd (mkdirs_spec r (s_cwd s) (path_prefixes path))"
proof -
  let ?dirs = "py_split ''/'' path"
  from mkdirs_loop_spec [OF assms(1-3), of ?dirs "[0..<length ?dirs]"]
  obtain res0 w0 tr where
    h: "mkdirs_loop ?dirs [0..<length ?dirs] sid w = (res0, w0)" "sessions w0 = sessions w"
       "hosts w0 = AList.map_entry (s_host s)
          (\<lambda>v. v\<lparr>fs := fst (mkdirs_spec r (s_cwd s) (path_prefixes path))\<rparr>) (hosts w)"
       "trace w0 = trace w @ tr"
       "mkd_sent sid tr = snd (mkdirs_spec r (s_cwd s) (path_prefixes path))"
    unfolding path_prefixes_def Let_def by blast
  have "mkdirs path (Some sid) server login close w = (res0, w0)"
    using h(1) by (simp add: mkdirs_def bnd_def ret_def ftp_object_def Let_def)
  then have "w' = w0" using assms(4) by simp
  then show ?thesis using h by simp
qed

section \<open>Creating directories twice\<close>

text \<open>
  Claim C6.  On a session in order, for every path: a second call of \<open>mkdirs\<close> right after
  the first leaves every server as the first call left it; the \<open>MKD\<close> commands of each call
  follow the order of the path's prefixes, in which every prefix comes before the prefixes
  that extend it; and each call sends \<open>MKD\<close> only for prefixes that did not name a directory
  when the call began.
\<close>

theorem mkdirs_twice_is_mkdirs_once:
  assumes "session_ok w sid"
    and "mkdirs path (Some sid) server login close w = (res1, w1)"
    and "mkdirs path (Some sid) server login close w1 = (res2, w2)"
  shows "hosts w2 = hosts w1 \<and>
         sorted_wrt strict_prefix (path_prefixes path) \<and>
         subseq (mkd_sent sid (drop (length (trace w)) (trace w1))) (path_prefixes path) \<and>
         subseq (mkd_sent sid (drop (length (trace w1)) (trace w2))) (path_prefixes path) \<and>
         list_all (\<lambda>d. \<not> names_dir w sid d) (mkd_sent sid (drop (length (trace w)) (trace w1))) \<and>
         list_all (\<lambda>d. \<not> names_dir w1 sid d) (mkd_sent sid (drop (length (trace w1)) (trace w2)))"
proof -
  from assms(1) obtain s r where t: "target w sid = Some (s, r)"
    and v: "list_all valid_name (s_cwd s)" and d: "is_Dir (fs_lookup r (s_cwd s))"
    by (auto simp: session_ok_def split: option.splits)
  let ?ps = "path_prefixes path"
  let ?r1 = "fst (mkdirs_spec r (s_cwd s) ?ps)"
  note c1 = mkdirs_call [OF t v d assms(2)]
  have t1: "target w1 sid = Some (s, ?r1)"
    using target_with_fs [OF t, of w1 ?r1] c1 by simp
  have d1: "is_Dir (fs_lookup ?r1 (s_cwd s))"
    using d by (rule mkdirs_spec_keeps_dirs)
  note c2 = mkdirs_call [OF t1 v d1 assms(3)]
  have "hosts w2 = AList.map_entry (s_host s) (\<lambda>v. v\<lparr>fs := ?r1\<rparr>) (hosts w1)"
    using c2 by (simp add: mkdirs_spec_idem)
  then have a: "hosts w2 = hosts w1"
    using hosts_same_fs [OF t1] by simp
  have b: "subseq (mkd_sent sid (drop (length (trace w)) (trace w1))) ?ps"
    using c1 mkdirs_spec_subseq [of r "s_cwd s" ?ps] by simp
  have b2: "subseq (mkd_sent sid (drop (length (trace w1)) (trace w2))) ?ps"
    using c2 mkdirs_spec_subseq [of ?r1 "s_cwd s" ?ps] by simp
  have c: "list_all (\<lambda>d. \<not> names_dir w sid d) (mkd_sent sid (drop (length (trace w)) (trace w1)))"
    using c1 t mkdirs_spec_not_dirs [of _ r "s_cwd s" ?ps]
    by (auto simp: list_all_iff names_dir_def)
  have c': "list_all (\<lambda>d. \<not> names_dir w1 sid d)
              (mkd_sent sid (drop (length (trace w1)) (trace w2)))"
    using c2 t1 mkdirs_spec_not_dirs [of _ ?r1 "s_cwd s" ?ps]
    by (auto simp: list_all_iff names_dir_def)
  show ?thesis using a b b2 c c' path_prefixes_sorted by blast
qed

theorem mkdirs_twice_is_mkdirs_once_witness:
  "session_ok world1 0 \<and>
   path_prefixes ''new/sub/'' = [''new'', ''new/sub'', ''new/sub/''] \<and>
   mkd_sent 0 (drop (length (trace world1))
     (trace (snd (mkdirs ''new/sub/'' (Some 0) None None True world1)))) = [''new'', ''new/sub''] \<and>
   mkd_sent 0 (drop (length (trace (snd (mkdirs ''new/sub/'' (Some 0) None None True world1))))
     (trace (snd (mkdirs ''new/sub/'' (Some 0) None None True
        (snd (mkdirs ''new/sub/'' (Some 0) None None True world1)))))) = [] \<and>
   hosts (snd (mkdirs ''new/sub/'' (Some 0) None None True
            (snd (mkdirs ''new/sub/'' (Some 0) None None True world1))))
     = hosts (snd (mkdirs ''new/sub/'' (Some 0) None None True world1))"
proof -
  let ?m1 = "mkdirs ''new/sub/'' (Some 0) None None True world1"
  let ?m2 = "mkdirs ''new/sub/'' (Some 0) None None True (snd ?m1)"
  have h: "session_ok world1 0" by code_simp
  have e1: "?m1 = (fst ?m1, snd ?m1)" by simp
  have e2: "?m2 = (fst ?m2, snd ?m2)" by simp
  have p: "path_prefixes ''new/sub/'' = [''new'', ''new/sub'', ''new/sub/'']" by code_simp
  have a: "mkd_sent 0 (drop (length (trace world1)) (trace (snd ?m1))) = [''new'', ''new/sub'']"
    by code_simp
  have b: "mkd_sent 0 (drop (length (trace (snd ?m1))) (trace (snd ?m2))) = []"
    by code_simp
  show ?thesis
    using mkdirs_twice_is_mkdirs_once [OF h e1 e2] h p a b by simp
qed

section \<open>Listings and the paths of entries\<close>

lemma split_on_char_append:
  "split_on ''/'' acc (a @ CHR ''/'' # b) = split_on ''/'' acc a @ split_on ''/'' [] b"
  by (induction a arbitrary: acc) auto

lemma split_on_name: "CHR ''/'' \<notin> set n \<Longrightarrow> split_on ''/'' acc n = [acc @ n]"
  using split_on_slash_free [of n acc "[]"] by simp

lemma norm_segs_append: "norm_segs base (xs @ ys) = norm_segs (norm_segs base xs) ys"
  by (induction xs arbitrary: base) auto

lemma resolve_child:
  assumes "valid_name n"
  shows "resolve cur (child_path p n) = resolve cur p @ [n]"
proof -
  have n: "n \<noteq> []" "n \<noteq> ''.''" "n \<noteq> ''..''" "CHR ''/'' \<notin> set n"
    using assms by (auto simp: valid_name_def)
  then have hn: "hd n \<noteq> CHR ''/''" by (cases n) auto
  have sn: "\<And>acc. split_on ''/'' acc n = [acc @ n]" using n(4) by (rule split_on_name)
  have one: "\<And>base. norm_segs base [n] = base @ [n]" using n by simp
  show ?thesis
  proof (cases "p = []")
    case True
    then show ?thesis using n hn sn one by (simp add: child_path_def resolve_def py_split_def)
  next
    case False
    show ?thesis
    proof (cases "last p = CHR ''/''")
      case True
      then obtain q where q: "p = q @ ''/''"
        using False by (metis append_butlast_last_id)
      have "py_split ''/'' (p @ n) = split_on ''/'' [] q @ [n]"
        using split_on_char_append [of "[]" q n] sn by (simp add: q py_split_def)
      moreover have "py_split ''/'' p = split_on ''/'' [] q @ [[]]"
        using split_on_char_append [of "[]" q "[]"] by (simp add: q py_split_def)
      moreover have "hd (p @ n) = hd p" using False by simp
      ultimately show ?thesis
        using True False one by (simp add: child_path_def resolve_def norm_segs_append)
    next
      case nl: False
      have "py_split ''/'' (p @ ''/'' @ n) = py_split ''/'' p @ [n]"
        using split_on_char_append [of "[]" p n] sn by (simp add: py_split_def)
      moreover have "hd (p @ ''/'' @ n) = hd p" using False by simp
      ultimately show ?thesis
        using nl False one by (simp add: child_path_def resolve_def norm_segs_append)
    qed
  qed
qed

lemma fs_lookup_append:
  "fs_lookup r (a @ b) = (case fs_lookup r a of None \<Rightarrow> None | Some x \<Rightarrow> fs_lookup x b)"
proof (induction r a rule: fs_lookup.induct)
  case (1 n)
  then show ?case by simp
next
  case (2 c x xs)
  then show ?case by simp
next
  case (3 cs x xs)
  then show ?case by (cases "map_of cs x") simp_all
qed

lemma wf_node_child:
  assumes "wf_node (Dir cs)" and "(m, c) \<in> set cs"
  shows "valid_name m" "wf_node c" "map_of cs m = Some c"
  using assms by (auto simp: list_all_iff)

lemma wf_node_lookup: "wf_node r \<Longrightarrow> fs_lookup r t = Some nd \<Longrightarrow> wf_node nd"
proof (induction r t rule: fs_lookup.induct)
  case (1 n)
  then show ?case by simp
next
  case (2 c x xs)
  then show ?case by simp
next
  case (3 cs x xs)
  from "3.prems"(2) obtain c where c: "map_of cs x = Some c" and l: "fs_lookup c xs = Some nd"
    by (auto split: option.splits)
  then have "(x, c) \<in> set cs" by (auto dest: map_of_SomeD)
  then have "wf_node c" using "3.prems"(1) by (auto simp: list_all_iff)
  then show ?case using "3.IH" [OF c] l by simp
qed

lemma fold_max_ge: "(a :: nat) \<le> fold max xs a"
proof (induction xs arbitrary: a)
  case Nil
  then show ?case by simp
next
  case (Cons x xs)
  have "a \<le> max x a" by simp
  also have "\<dots> \<le> fold max xs (max x a)" by (rule Cons.IH)
  finally show ?case by simp
qed

lemma fold_max_mem: "(x :: nat) \<in> set xs \<Longrightarrow> x \<le> fold max xs a"
proof (induction xs arbitrary: a)
  case Nil
  then show ?case by simp
next
  case (Cons y xs)
  show ?case
  proof (cases "x = y")
    case True
    have "x \<le> max y a" using True by simp
    also have "\<dots> \<le> fold max xs (max y a)" by (rule fold_max_ge)
    finally show ?thesis by simp
  next
    case False
    then show ?thesis using Cons by simp
  qed
qed

lemma height_child: "(m, c) \<in> set cs \<Longrightarrow> height c < height (Dir cs)"
proof -
  assume "(m, c) \<in> set cs"
  then have "height c \<in> set (map (\<lambda>nc. height (snd nc)) cs)" by force
  then have "height c \<le> fold max (map (\<lambda>nc. height (snd nc)) cs) 0" by (rule fold_max_mem)
  then show ?thesis by simp
qed

lemma ls_open:
  "target w sid = Some (s, r) \<Longrightarrow>
   ls p (Some sid) server login False w =
     (Inr (case fs_lookup r (resolve (s_cwd s) p) of
             None \<Rightarrow> []
           | Some (File c) \<Rightarrow> [p]
           | Some (Dir cs) \<Rightarrow> map (\<lambda>nc. child_path p (fst nc)) cs),
      w\<lparr>trace := trace w @ [Cmd sid (NLST p)]\<rparr>)"
  by (auto simp: ls_def bnd_def ret_def ftp_object_def ftp_nlst_def sent_def Let_def
      split: option.splits node.splits)

text \<open>The files below a node are the paths that lead from it to a file.\<close>

lemma files_under_iff:
  "wf_node nd \<Longrightarrow>
   (q \<in> set (files_under p nd)) =
     (\<exists>ms c. fs_lookup nd ms = Some (File c) \<and> q = foldl child_path p ms)"
proof (induction nd arbitrary: p)
  case (File x)
  show ?case
  proof
    assume "q \<in> set (files_under p (File x))"
    then have "fs_lookup (File x) [] = Some (File x) \<and> q = foldl child_path p []" by simp
    then show "\<exists>ms c. fs_lookup (File x) ms = Some (File c) \<and> q = foldl child_path p ms"
      by blast
  next
    assume "\<exists>ms c. fs_lookup (File x) ms = Some (File c) \<and> q = foldl child_path p ms"
    then obtain ms c where l: "fs_lookup (File x) ms = Some (File c)"
      and q: "q = foldl child_path p ms" by blast
    from l have "ms = []" by (cases ms) auto
    then show "q \<in> set (files_under p (File x))" using q by simp
  qed
next
  case (Dir cs)
  have ih: "\<And>m c p. (m, c) \<in> set cs \<Longrightarrow>
      (q \<in> set (files_under p c)) =
        (\<exists>ms c'. fs_lookup c ms = Some (File c') \<and> q = foldl child_path p ms)"
  proof -
    fix m c p assume mc: "(m, c) \<in> set cs"
    then have "wf_node c" using Dir.prems by (auto simp: list_all_iff)
    moreover have "c \<in> Basic_BNFs.snds (m, c)" by simp
    ultimately show "(q \<in> set (files_under p c)) =
        (\<exists>ms c'. fs_lookup c ms = Some (File c') \<and> q = foldl child_path p ms)"
      using Dir.IH [OF mc] by blast
  qed
  show ?case
  proof
    assume "q \<in> set (files_under p (Dir cs))"
    then obtain m c where mc: "(m, c) \<in> set cs" and "q \<in> set (files_under (child_path p m) c)"
      by auto
    then obtain ms c' where l: "fs_lookup c ms = Some (File c')"
      and q: "q = foldl child_path (child_path p m) ms"
      using ih [OF mc] by blast
    have "map_of cs m = Some c" using wf_node_child(3) [OF Dir.prems mc] .
    then have "fs_lookup (Dir cs) (m # ms) = Some (File c')" using l by simp
    moreover have "q = foldl child_path p (m # ms)" using q by simp
    ultimately show "\<exists>ms c. fs_lookup (Dir cs) ms = Some (File c) \<and> q = foldl child_path p ms"
      by blast
  next
    assume "\<exists>ms c. fs_lookup (Dir cs) ms = Some (File c) \<and> q = foldl child_path p ms"
    then obtain ms c' where l: "fs_lookup (Dir cs) ms = Some (File c')"
      and q: "q = foldl child_path p ms" by blast
    from l obtain m ms' where ms: "ms = m # ms'" by (cases ms) auto
    with l obtain c where c: "map_of cs m = Some c" and l': "fs_lookup c ms' = Some (File c')"
      by (auto split: option.splits)
    then have mc: "(m, c) \<in> set cs" by (auto dest: map_of_SomeD)
    have "q \<in> set (files_under (child_path p m) c)"
      using ih [OF mc, of "child_path p m"] l' q ms by auto
    then show "q \<in> set (files_under p (Dir cs))" using mc by force
  qed
qed

text \<open>Every path listed below a node names a file.\<close>

lemma files_under_are_files:
  "wf_node nd \<Longrightarrow> fs_lookup r (resolve cur p) = Some nd \<Longrightarrow> q \<in> set (files_under p nd) \<Longrightarrow>
   is_File (fs_lookup r (resolve cur q))"
proof (induction nd arbitrary: p)
  case (File x)
  then show ?case by (simp add: is_File_def)
next
  case (Dir cs)
  from Dir.prems(3) obtain m c where mc: "(m, c) \<in> set cs"
    and q: "q \<in> set (files_under (child_path p m) c)"
    by auto
  note ch = wf_node_child [OF Dir.prems(1) mc]
  have "fs_lookup r (resolve cur (child_path p m)) = Some c"
    using Dir.prems(2) ch(1,3) by (simp add: resolve_child fs_lookup_append)
  moreover have "c \<in> Basic_BNFs.snds (m, c)" by simp
  ultimately show ?case using Dir.IH [OF mc _ ch(2) _ q] by blast
qed

section \<open>The walk\<close>

text \<open>
  The loop over a listing, given that the walk with the same fuel is right on every node
  it can be asked to descend into.
\<close>

lemma tree_items_walk:
  assumes t: "target w sid = Some (s, r)"
    and v: "list_all valid_name (s_cwd s)"
    and d: "is_Dir (fs_lookup r (s_cwd s))"
    and H: "\<And>p nd w. target w sid = Some (s, r) \<Longrightarrow> fs_lookup r (resolve (s_cwd s) p) = Some nd \<Longrightarrow>
              wf_node nd \<Longrightarrow> height nd < n \<Longrightarrow>
              \<exists>tr. tree_fuel re n p pattern sid (Suc k) w =
                     Some (Inr (filter (matches re pattern) (files_under p nd)),
                           w\<lparr>trace := trace w @ tr\<rparr>)"
    and cs: "\<And>m c. (m, c) \<in> set cs \<Longrightarrow>
              fs_lookup r (resolve (s_cwd s) (child_path p m)) = Some c \<and> wf_node c \<and> height c < n"
  shows "\<exists>tr. tree_items re n (map (\<lambda>nc. child_path p (fst nc)) cs) pattern sid k w =
           Some (Inr (filter (matches re pattern)
                        (concat (map (\<lambda>nc. files_under (child_path p (fst nc)) (snd nc)) cs))),
                 w\<lparr>trace := trace w @ tr\<rparr>)"
  using t cs
proof (induction cs arbitrary: w)
  case Nil
  show ?case by (intro exI [of _ "[]"]) simp
next
  case (Cons mc cs)
  obtain m c where mc: "mc = (m, c)" by (cases mc)
  let ?q = "child_path p m"
  have l: "fs_lookup r (resolve (s_cwd s) ?q) = Some c" and wf: "wf_node c" and h: "height c < n"
    using Cons.prems(2) [of m c] mc by auto
  let ?b = "is_Dir (Some c)"
  from is_dir_probe [OF Cons.prems(1) v d, of ?q None None] l obtain tr1 where
    p: "is_dir ?q (Some sid) None None False w = (Inr ?b, w\<lparr>trace := trace w @ tr1\<rparr>)"
    by auto
  let ?w1 = "w\<lparr>trace := trace w @ tr1\<rparr>"
  have t1: "target ?w1 sid = Some (s, r)" using Cons.prems(1) by simp
  have "\<exists>tr2. (if ?b then tree_fuel re n ?q pattern sid (k + 1) ?w1
                else Some (Inr (if matches re pattern ?q then [?q] else []), ?w1)) =
          Some (Inr (filter (matches re pattern) (files_under ?q c)), ?w1\<lparr>trace := trace ?w1 @ tr2\<rparr>)"
  proof (cases c)
    case (File x)
    show ?thesis using File by (intro exI [of _ "[]"]) (simp add: is_Dir_def)
  next
    case (Dir xs)
    then show ?thesis using H [OF t1 l wf h] by (simp add: is_Dir_def)
  qed
  then obtain tr2 where
    f: "(if ?b then tree_fuel re n ?q pattern sid (k + 1) ?w1
         else Some (Inr (if matches re pattern ?q then [?q] else []), ?w1)) =
          Some (Inr (filter (matches re pattern) (files_under ?q c)), ?w1\<lparr>trace := trace ?w1 @ tr2\<rparr>)"
    by blast
  let ?w2 = "?w1\<lparr>trace := trace ?w1 @ tr2\<rparr>"
  have t2: "target ?w2 sid = Some (s, r)" using Cons.prems(1) by simp
  from Cons.IH [OF t2] Cons.prems(2) obtain tr3 where
    r: "tree_items re n (map (\<lambda>nc. child_path p (fst nc)) cs) pattern sid k ?w2 =
           Some (Inr (filter (matches re pattern)
                        (concat (map (\<lambda>nc. files_under (child_path p (fst nc)) (snd nc)) cs))),
                 ?w2\<lparr>trace := trace ?w2 @ tr3\<rparr>)"
    by auto
  have "tree_items re n (map (\<lambda>nc. child_path p (fst nc)) (mc # cs)) pattern sid k w =
          Some (Inr (filter (matches re pattern)
                       (concat (map (\<lambda>nc. files_under (child_path p (fst nc)) (snd nc)) (mc # cs)))),
                w\<lparr>trace := trace w @ (tr1 @ tr2 @ tr3)\<rparr>)"
    using p f r by (simp add: mc)
  then show ?case by blast
qed

lemma tree_fuel_walk:
  assumes v: "list_all valid_name (s_cwd s)"
    and d: "is_Dir (fs_lookup r (s_cwd s))"
  shows "target w sid = Some (s, r) \<Longrightarrow> fs_lookup r (resolve (s_cwd s) p) = Some nd \<Longrightarrow>
         wf_node nd \<Longrightarrow> height nd < n \<Longrightarrow>
         \<exists>tr. tree_fuel re n p pattern sid dp w =
                Some (Inr (filter (matches re pattern) (files_under p nd)),
                      if dp = 0
                      then w\<lparr>trace := trace w @ tr @ [Cmd sid QUIT],
                             sessions := (sessions w)[sid := s\<lparr>s_open := False\<rparr>]\<rparr>
                      else w\<lparr>trace := trace w @ tr\<rparr>)"
proof (induction n arbitrary: w p nd dp)
  case 0
  then show ?case by simp
next
  case (Suc n)
  note t = Suc.prems(1) and l = Suc.prems(2) and wf = Suc.prems(3) and h = Suc.prems(4)
  let ?w1 = "w\<lparr>trace := trace w @ [Cmd sid (NLST p)]\<rparr>"
  have t1: "target ?w1 sid = Some (s, r)" using t by simp
  have q: "\<And>tr. ftp_quit sid (w\<lparr>trace := trace w @ tr\<rparr>) =
             (Inr (), w\<lparr>trace := trace w @ tr @ [Cmd sid QUIT],
                        sessions := (sessions w)[sid := s\<lparr>s_open := False\<rparr>]\<rparr>)"
  proof -
    fix tr
    have "target (w\<lparr>trace := trace w @ tr\<rparr>) sid = Some (s, r)" using t by simp
    from ftp_quit_open [OF this] show "ftp_quit sid (w\<lparr>trace := trace w @ tr\<rparr>) =
             (Inr (), w\<lparr>trace := trace w @ tr @ [Cmd sid QUIT],
                        sessions := (sessions w)[sid := s\<lparr>s_open := False\<rparr>]\<rparr>)"
      by (simp add: sent_def)
  qed
  show ?case
  proof (cases nd)
    case (File x)
    have ls: "ls p (Some sid) None None False w = (Inr [p], ?w1)"
      using ls_open [OF t, of p None None] l File by simp
    from is_dir_probe [OF t1 v d, of p None None] l File obtain tr1 where
      p: "is_dir p (Some sid) None None False ?w1 = (Inr False, ?w1\<lparr>trace := trace ?w1 @ tr1\<rparr>)"
      by (auto simp: is_Dir_def)
    have "tree_fuel re (Suc n) p pattern sid dp w =
            Some (Inr (filter (matches re pattern) (files_under p nd)),
                  if dp = 0
                  then w\<lparr>trace := trace w @ (Cmd sid (NLST p) # tr1) @ [Cmd sid QUIT],
                         sessions := (sessions w)[sid := s\<lparr>s_open := False\<rparr>]\<rparr>
                  else w\<lparr>trace := trace w @ (Cmd sid (NLST p) # tr1)\<rparr>)"
      using ls p File q [of "Cmd sid (NLST p) # tr1"] by simp
    then show ?thesis by blast
  next
    case (Dir cs)
    have ls: "ls p (Some sid) None None False w = (Inr (map (\<lambda>nc. child_path p (fst nc)) cs), ?w1)"
      using ls_open [OF t, of p None None] l Dir by simp
    have ch: "\<And>m c. (m, c) \<in> set cs \<Longrightarrow>
        fs_lookup r (resolve (s_cwd s) (child_path p m)) = Some c \<and> wf_node c \<and> height c < n"
    proof -
      fix m c assume mc: "(m, c) \<in> set cs"
      note w = wf_node_child [OF wf [unfolded Dir] mc]
      have "fs_lookup r (resolve (s_cwd s) (child_path p m)) = Some c"
        using l Dir w(1,3) by (simp add: resolve_child fs_lookup_append)
      moreover have "height c < n" using height_child [OF mc] h Dir by simp
      ultimately show "fs_lookup r (resolve (s_cwd s) (child_path p m)) = Some c \<and> wf_node c
                         \<and> height c < n"
        using w(2) by simp
    qed
    have H: "\<And>p nd w. target w sid = Some (s, r) \<Longrightarrow> fs_lookup r (resolve (s_cwd s) p) = Some nd \<Longrightarrow>
              wf_node nd \<Longrightarrow> height nd < n \<Longrightarrow>
              \<exists>tr. tree_fuel re n p pattern sid (Suc dp) w =
                     Some (Inr (filter (matches re pattern) (files_under p nd)),
                           w\<lparr>trace := trace w @ tr\<rparr>)"
    proof -
      fix p nd w
      assume "target w sid = Some (s, r)" "fs_lookup r (resolve (s_cwd s) p) = Some nd"
        "wf_node nd" "height nd < n"
      from Suc.IH [OF this, of "Suc dp"]
      show "\<exists>tr. tree_fuel re n p pattern sid (Suc dp) w =
                     Some (Inr (filter (matches re pattern) (files_under p nd)),
                           w\<lparr>trace := trace w @ tr\<rparr>)"
        by simp
    qed
    from tree_items_walk [OF t1 v d H ch] obtain tr where
      i: "tree_items re n (map (\<lambda>nc. child_path p (fst nc)) cs) pattern sid dp ?w1 =
            Some (Inr (filter (matches re pattern)
                         (concat (map (\<lambda>nc. files_under (child_path p (fst nc)) (snd nc)) cs))),
                  ?w1\<lparr>trace := trace ?w1 @ tr\<rparr>)"
      by blast
    have "tree_fuel re (Suc n) p pattern sid dp w =
            Some (Inr (filter (matches re pattern) (files_under p nd)),
                  if dp = 0
                  then w\<lparr>trace := trace w @ (Cmd sid (NLST p) # tr) @ [Cmd sid QUIT],
                         sessions := (sessions w)[sid := s\<lparr>s_open := False\<rparr>]\<rparr>
                  else w\<lparr>trace := trace w @ (Cmd sid (NLST p) # tr)\<rparr>)"
      using ls i Dir q [of "Cmd sid (NLST p) # tr"] by simp
    then show ?thesis by blast
  qed
qed

section \<open>Walking a remote tree\<close>

lemma matches_absent [simp]: "matches re None path" "matches re (Some []) path"
  by (simp_all add: matches_def truthy_def)

lemma matches_pattern: "pattern \<noteq> [] \<Longrightarrow> matches re (Some pattern) path = re pattern path"
  by (simp add: matches_def truthy_def)

text \<open>
  Claim C7.  On a session in order whose server tree is well formed, and with fuel above
  the depth below the root: \<open>tree\<close> ends and has yielded, in depth-first listing order, the
  files below the root that pass the pattern test (all of them when the pattern is absent
  or empty).  Every path listed below the root names a file, none a directory, and the
  paths listed are exactly those that lead from the root through entries to a file.
\<close>

theorem tree_yields_matching_files:
  assumes "session_ok w sid"
    and "server_ok w sid"
    and "depth_below (node_at w sid src) < n"
  shows "map_option fst (tree re n src pattern (Some sid) server login w)
           = Some (Inr (filter (matches re pattern) (files_below src (node_at w sid src)))) \<and>
         list_all (\<lambda>q. is_File (node_at w sid q) \<and> \<not> is_Dir (node_at w sid q))
           (files_below src (node_at w sid src)) \<and>
         (\<forall>q. (q \<in> set (files_below src (node_at w sid src))) =
                (\<exists>nd ms c. node_at w sid src = Some nd \<and> fs_lookup nd ms = Some (File c) \<and>
                           q = foldl child_path src ms))"
proof -
  from assms(1) obtain s r where t: "target w sid = Some (s, r)"
    and v: "list_all valid_name (s_cwd s)" and d: "is_Dir (fs_lookup r (s_cwd s))"
    by (auto simp: session_ok_def split: option.splits)
  have wr: "wf_node r" using assms(2) t by (simp add: server_ok_def)
  have na: "\<And>q. node_at w sid q = fs_lookup r (resolve (s_cwd s) q)"
    using t by (simp add: node_at_def)
  have top: "tree re n src pattern (Some sid) server login w = tree_fuel re n src pattern sid 0 w"
    by (simp add: tree_def ftp_object_def ret_def)
  show ?thesis
  proof (cases "fs_lookup r (resolve (s_cwd s) src)")
    case None
    from assms(3) obtain n' where n: "n = Suc n'" by (cases n) auto
    let ?w1 = "w\<lparr>trace := trace w @ [Cmd sid (NLST src)]\<rparr>"
    have ls: "ls src (Some sid) None None False w = (Inr [], ?w1)"
      using ls_open [OF t, of src None None] None by simp
    have "target ?w1 sid = Some (s, r)" using t by simp
    from ftp_quit_open [OF this] have "fst (ftp_quit sid ?w1) = Inr ()" by simp
    then have "map_option fst (tree_fuel re n src pattern sid 0 w) = Some (Inr [])"
      using ls by (auto simp: n split: prod.splits sum.splits)
    then show ?thesis using None top by (simp add: na files_below_def)
  next
    case (Some nd)
    have wn: "wf_node nd" using wf_node_lookup [OF wr Some] .
    have h: "height nd < n" using assms(3) Some by (simp add: na depth_below_def)
    from tree_fuel_walk [OF v d t Some wn h, of re pattern 0]
    have a: "map_option fst (tree_fuel re n src pattern sid 0 w)
               = Some (Inr (filter (matches re pattern) (files_under src nd)))"
      by auto
    have b: "list_all (\<lambda>q. is_File (node_at w sid q) \<and> \<not> is_Dir (node_at w sid q))
               (files_under src nd)"
      unfolding list_all_iff
    proof
      fix q assume "q \<in> set (files_under src nd)"
      from files_under_are_files [OF wn Some this]
      show "is_File (node_at w sid q) \<and> \<not> is_Dir (node_at w sid q)"
        by (auto simp: na is_File_def is_Dir_def split: option.splits node.splits)
    qed
    have c: "\<forall>q. (q \<in> set (files_under src nd)) =
                (\<exists>nd' ms c. Some nd = Some nd' \<and> fs_lookup nd' ms = Some (File c) \<and>
                            q = foldl child_path src ms)"
      using files_under_iff [OF wn] by simp
    show ?thesis using a b c top Some by (simp add: na files_below_def)
  qed
qed

theorem tree_yields_matching_files_witness:
  "session_ok world_walk 0 \<and> server_ok world_walk 0 \<and>
   depth_below (node_at world_walk 0 []) < 3 \<and>
   files_below [] (node_at world_walk 0 []) = [''a.txt'', ''a.csv'', ''dir/b.txt''] \<and>
   map_option fst (tree search_txt 3 [] (Some (CHR 0x5C # ''.txt$'')) (Some 0) None None world_walk)
     = Some (Inr [''a.txt'', ''dir/b.txt''])"
proof -
  have a: "session_ok world_walk 0" by code_simp
  have b: "server_ok world_walk 0" by code_simp
  have c: "depth_below (node_at world_walk 0 []) < 3" by code_simp
  have f: "files_below [] (node_at world_walk 0 []) = [''a.txt'', ''a.csv'', ''dir/b.txt'']"
    by code_simp
  have m: "filter (matches search_txt (Some (CHR 0x5C # ''.txt$'')))
             [''a.txt'', ''a.csv'', ''dir/b.txt''] = [''a.txt'', ''dir/b.txt'']"
    by code_simp
  show ?thesis
    using tree_yields_matching_files [OF a b c, of search_txt "Some (CHR 0x5C # ''.txt$'')" None None]
      a b c f m
    by simp
qed

section \<open>Refusing to overwrite\<close>

text \<open>
  Without \<open>force\<close>, on an open session: \<open>upload\<close> to a path that names a file on the server
  raises \<open>FileExistsError\<close> after the one listing, before the local file is opened and
  before any \<open>STOR\<close>; \<open>download\<close> to a local file raises it after \<open>TYPE I\<close>, before the
  destination is opened and before any \<open>RETR\<close>.
\<close>

lemma upload_refuses_existing_file:
  assumes "target w sid = Some (s, r)"
    and "is_File (fs_lookup r (resolve (s_cwd s) dst))"
  shows "upload src dst False makedirs (Some sid) server login False w =
           (Inl FileExistsError, w\<lparr>trace := trace w @ [Cmd sid (NLST dst)]\<rparr>)"
proof -
  from assms(2) obtain c where "fs_lookup r (resolve (s_cwd s) dst) = Some (File c)"
    by (auto simp: is_File_def split: option.splits node.splits)
  then have "ls dst (Some sid) None None False w =
               (Inr [dst], w\<lparr>trace := trace w @ [Cmd sid (NLST dst)]\<rparr>)"
    using ls_open [OF assms(1), of dst None None] by simp
  then show ?thesis
    by (simp add: upload_def bnd_def ret_def throw_def ftp_object_def)
qed

lemma download_refuses_existing_file:
  assumes "target w sid = Some (s, r)"
    and "os_path_isfile dst w"
  shows "fst (download src dst False makedirs (Some sid) server login False w) = Inl FileExistsError \<and>
         disk (snd (download src dst False makedirs (Some sid) server login False w)) = disk w \<and>
         hosts (snd (download src dst False makedirs (Some sid) server login False w)) = hosts w \<and>
         trace (snd (download src dst False makedirs (Some sid) server login False w))
           = trace w @ [Cmd sid TYPE_I]"
proof -
  have "os_path_isfile dst (w\<lparr>trace := tr, sessions := ss\<rparr>) = os_path_isfile dst w" for tr ss
    by (simp add: os_path_isfile_def os_stat_def os_base_def cong: sum.case_cong)
  then show ?thesis
    using assms
    by (simp add: download_def bnd_def ret_def throw_def ftp_object_def ftp_type_i_def Let_def
          sent_def)
qed

section \<open>Overwriting an existing destination\<close>

text \<open>
  Claim C3 at destinations that are a bare file name, with \<open>force\<close> and the default
  \<open>makedirs\<close>.  \<open>download\<close>: \<open>report.csv\<close> exists in the working directory;
  \<open>os.path.dirname\<close> of it is empty, \<open>os.path.exists('')\<close> is false, and \<open>os.makedirs('')\<close>
  raises before the destination is opened.  \<open>upload\<close>: \<open>a.txt\<close> exists on the server;
  \<open>dst.rsplit('/',1)[0]\<close> is \<open>a.txt\<close> itself, which is no directory, and \<open>mkdirs\<close> sends
  \<open>MKD a.txt\<close>, which the server refuses.  Neither destination is changed.  The third
  case is an upload to a server named by the caller when \<open>CFG\<close> has no server \<open>'main'\<close>: the
  probe of the parent resolves the default server and raises \<open>KeyError\<close>.
\<close>

theorem overwrite_fails_on_bare_destination:
  "os_path_isfile ''report.csv'' world0 \<and>
   fst (download ''/remote/x'' ''report.csv'' True True None None None True world0)
     = Inl FileNotFoundError \<and>
   disk (snd (download ''/remote/x'' ''report.csv'' True True None None None True world0))
     = disk world0 \<and>
   fst (ls ''a.txt'' (Some 0) None None False world1) = Inr [''a.txt''] \<and>
   fst (upload ''/local/x'' ''a.txt'' True True (Some 0) None None False world1) = Inl error_perm \<and>
   hosts (snd (upload ''/local/x'' ''a.txt'' True True (Some 0) None None False world1))
     = hosts world1 \<and>
   fst (ls ''/remote/x'' None (Some ''backup'') None True world_backup) = Inr [''/remote/x''] \<and>
   fst (upload ''/local/x'' ''/remote/x'' True True None (Some ''backup'') None True world_backup)
     = Inl KeyError"
proof -
  have a: "os_path_isfile ''report.csv'' world0" by code_simp
  have b: "fst (download ''/remote/x'' ''report.csv'' True True None None None True world0)
             = Inl FileNotFoundError"
    by code_simp
  have c: "disk (snd (download ''/remote/x'' ''report.csv'' True True None None None True world0))
             = disk world0"
    by code_simp
  have d: "fst (ls ''a.txt'' (Some 0) None None False world1) = Inr [''a.txt'']" by code_simp
  have e: "fst (upload ''/local/x'' ''a.txt'' True True (Some 0) None None False world1)
             = Inl error_perm"
    by code_simp
  have f: "hosts (snd (upload ''/local/x'' ''a.txt'' True True (Some 0) None None False world1))
             = hosts world1"
    by code_simp
  have g: "fst (ls ''/remote/x'' None (Some ''backup'') None True world_backup)
             = Inr [''/remote/x'']"
    by code_simp
  have h: "fst (upload ''/local/x'' ''/remote/x'' True True None (Some ''backup'') None True
             world_backup) = Inl KeyError"
    by code_simp
  show ?thesis using a b c d e f g h by blast
qed

section \<open>The list returned by a batch\<close>

lemma ftp_multiple_returns_empty:
  "ftp_multiple sched files typ force makedirs ftp server login w = Some (Inr res, w') \<Longrightarrow> res = []"
  by (auto simp: ftp_multiple_def Let_def split: if_splits)

text \<open>
  Claim C1 on its own scenario: the batch upload of \<open>{"/local/x": "/remote/x"}\<close> without
  \<open>force\<close>, \<open>/remote/x\<close> existing, under the schedule in which the first process runs to its
  end before the others start.  After five attempts the first process has
  \<open>/local/x\<close> in its own \<open>result\<close>, the remote tree is unchanged, and the list that
  \<open>upload_multiple\<close> returns is empty.
\<close>

theorem batch_failure_is_not_returned:
  "map_option fst
     (upload_multiple [0, 0, 0, 1, 1, 2, 2, 3, 3, 4, 4] [(''/local/x'', ''/remote/x'')]
        False False None None None world0) = Some (Inr []) \<and>
   map p_result
     (p_procs (run_pool (upload_item None None) None None None [0, 0, 0, 1, 1, 2, 2, 3, 3, 4, 4]
        (upload_pool [(''/local/x'', ''/remote/x'')] 5 world0)))
     = [[''/local/x''], [], [], [], []] \<and>
   length (retries_logged
     (p_world (run_pool (upload_item None None) None None None [0, 0, 0, 1, 1, 2, 2, 3, 3, 4, 4]
        (upload_pool [(''/local/x'', ''/remote/x'')] 5 world0)))) = 5 \<and>
   hosts
     (p_world (run_pool (upload_item None None) None None None [0, 0, 0, 1, 1, 2, 2, 3, 3, 4, 4]
        (upload_pool [(''/local/x'', ''/remote/x'')] 5 world0)))
     = hosts world0"
proof -
  let ?st = "run_pool (upload_item None None) None None None [0, 0, 0, 1, 1, 2, 2, 3, 3, 4, 4]
               (upload_pool [(''/local/x'', ''/remote/x'')] 5 world0)"
  have a: "map_option fst
     (upload_multiple [0, 0, 0, 1, 1, 2, 2, 3, 3, 4, 4] [(''/local/x'', ''/remote/x'')]
        False False None None None world0) = Some (Inr [])"
    by code_simp
  have b: "map p_result (p_procs ?st) = [[''/local/x''], [], [], [], []]" by code_simp
  have c: "length (retries_logged (p_world ?st)) = 5" by code_simp
  have d: "hosts (p_world ?st) = hosts world0" by code_simp
  show ?thesis using a b c d by blast
qed

section \<open>A pool of one process\<close>

text \<open>
  The steps of the pool and the worker as a function agree: a process that runs alone goes
  through the loop of \<open>ftp_worker\<close> and ends where \<open>ftp_worker\<close> ends, \<open>Exited\<close> when the
  worker returns and \<open>Died e\<close> when it raises \<open>e\<close>.
\<close>

lemma solo_loop:
  assumes "worker_loop (op sid) queue result w = (r, queue', result', w')"
    and "Ftp_exit sid w' = (x, w'')"
  shows "\<exists>m. fold (step op ftp server login) (replicate m 0)
               \<lparr>p_world = w, p_queue = queue,
                p_procs = [\<lparr>p_pc = AtTest sid, p_result = result\<rparr>]\<rparr>
             = \<lparr>p_world = w'', p_queue = queue',
                p_procs = [\<lparr>p_pc = (case x of Inl e' \<Rightarrow> Died e'
                                       | Inr u \<Rightarrow> (case r of Inl e \<Rightarrow> Died e | Inr u \<Rightarrow> Exited)),
                            p_result = result'\<rparr>]\<rparr>"
  using assms
proof (induction queue arbitrary: result w)
  case Nil
  then have "fold (step op ftp server login) (replicate 1 0)
               \<lparr>p_world = w, p_queue = [], p_procs = [\<lparr>p_pc = AtTest sid, p_result = result\<rparr>]\<rparr>
             = \<lparr>p_world = w'', p_queue = queue',
                p_procs = [\<lparr>p_pc = (case x of Inl e' \<Rightarrow> Died e'
                                       | Inr u \<Rightarrow> (case r of Inl e \<Rightarrow> Died e | Inr u \<Rightarrow> Exited)),
                            p_result = result'\<rparr>]\<rparr>"
    by (cases x) (auto simp: step_def)
  then show ?case by blast
next
  case (Cons d queue)
  obtain v result1 w1 where i: "worker_item (op sid) d result w = (v, result1, w1)"
    by (cases "worker_item (op sid) d result w")
  let ?st = "\<lparr>p_world = w, p_queue = d # queue,
              p_procs = [\<lparr>p_pc = AtTest sid, p_result = result\<rparr>]\<rparr>"
  show ?case
  proof (cases v)
    case (Inl e)
    then have "r = Inl e" "queue' = queue" "result' = result1" "w' = w1"
      using Cons.prems(1) i by auto
    then have "fold (step op ftp server login) (replicate 2 0) ?st
             = \<lparr>p_world = w'', p_queue = queue',
                p_procs = [\<lparr>p_pc = (case x of Inl e' \<Rightarrow> Died e'
                                       | Inr u \<Rightarrow> (case r of Inl e \<Rightarrow> Died e | Inr u \<Rightarrow> Exited)),
                            p_result = result'\<rparr>]\<rparr>"
      using i Inl Cons.prems(2) by (cases x) (auto simp: step_def numeral_2_eq_2)
    then show ?thesis by blast
  next
    case (Inr u)
    then have l: "worker_loop (op sid) queue result1 w1 = (r, queue', result', w')"
      using Cons.prems(1) i by simp
    from Cons.IH [of result1 w1] l Cons.prems(2) obtain m where
      m: "fold (step op ftp server login) (replicate m 0)
               \<lparr>p_world = w1, p_queue = queue,
                p_procs = [\<lparr>p_pc = AtTest sid, p_result = result1\<rparr>]\<rparr>
             = \<lparr>p_world = w'', p_queue = queue',
                p_procs = [\<lparr>p_pc = (case x of Inl e' \<Rightarrow> Died e'
                                       | Inr u \<Rightarrow> (case r of Inl e \<Rightarrow> Died e | Inr u \<Rightarrow> Exited)),
                            p_result = result'\<rparr>]\<rparr>"
      by blast
    have two: "fold (step op ftp server login) (replicate 2 0) ?st
                 = \<lparr>p_world = w1, p_queue = queue,
                    p_procs = [\<lparr>p_pc = AtTest sid, p_result = result1\<rparr>]\<rparr>"
      using i Inr by (simp add: step_def numeral_2_eq_2)
    have "fold (step op ftp server login) (replicate (2 + m) 0) ?st
            = fold (step op ftp server login) (replicate m 0)
                (fold (step op ftp server login) (replicate 2 0) ?st)"
      by (simp only: replicate_add fold_append comp_apply)
    then show ?thesis using two m by (intro exI [of _ "2 + m"]) simp
  qed
qed

lemma solo_worker:
  assumes "ftp_worker op queue ftp server login result w = (r, queue', result', w')"
  shows "\<exists>m. run_pool op ftp server login (replicate m 0)
               \<lparr>p_world = w, p_queue = queue, p_procs = [\<lparr>p_pc = Start, p_result = result\<rparr>]\<rparr>
             = \<lparr>p_world = w', p_queue = queue',
                p_procs = [\<lparr>p_pc = (case r of Inl e \<Rightarrow> Died e | Inr u \<Rightarrow> Exited),
                            p_result = result'\<rparr>]\<rparr>"
proof -
  let ?st = "\<lparr>p_world = w, p_queue = queue, p_procs = [\<lparr>p_pc = Start, p_result = result\<rparr>]\<rparr>"
  obtain v w1 where i: "Ftp_init ftp server login w = (v, w1)"
    by (cases "Ftp_init ftp server login w")
  show ?thesis
  proof (cases v)
    case (Inl e)
    then have "r = Inl e" "queue' = queue" "result' = result" "w' = w1"
      using assms i by (auto simp: ftp_worker_def)
    then have "run_pool op ftp server login (replicate 1 0) ?st
             = \<lparr>p_world = w', p_queue = queue',
                p_procs = [\<lparr>p_pc = (case r of Inl e \<Rightarrow> Died e | Inr u \<Rightarrow> Exited),
                            p_result = result'\<rparr>]\<rparr>"
      using i Inl by (simp add: run_pool_def step_def)
    then show ?thesis by blast
  next
    case (Inr sid)
    obtain r0 q1 res1 w2 where l: "worker_loop (op sid) queue result w1 = (r0, q1, res1, w2)"
      by (cases "worker_loop (op sid) queue result w1") auto
    obtain x w3 where e: "Ftp_exit sid w2 = (x, w3)" by (cases "Ftp_exit sid w2")
    have r: "r = (case x of Inl e \<Rightarrow> Inl e | Inr u \<Rightarrow> r0)" "queue' = q1" "result' = res1" "w' = w3"
      using assms i Inr l e by (auto simp: ftp_worker_def split: sum.splits)
    from solo_loop [of op sid queue result w1 r0 q1 res1 w2 x w3 ftp server login] l e obtain m where
      m: "fold (step op ftp server login) (replicate m 0)
               \<lparr>p_world = w1, p_queue = queue,
                p_procs = [\<lparr>p_pc = AtTest sid, p_result = result\<rparr>]\<rparr>
             = \<lparr>p_world = w3, p_queue = q1,
                p_procs = [\<lparr>p_pc = (case x of Inl e' \<Rightarrow> Died e'
                                       | Inr u \<Rightarrow> (case r0 of Inl e \<Rightarrow> Died e | Inr u \<Rightarrow> Exited)),
                            p_result = res1\<rparr>]\<rparr>"
      by blast
    have one: "fold (step op ftp server login) (replicate 1 0) ?st
                 = \<lparr>p_world = w1, p_queue = queue,
                    p_procs = [\<lparr>p_pc = AtTest sid, p_result = result\<rparr>]\<rparr>"
      using i Inr by (simp add: step_def)
    have "fold (step op ftp server login) (replicate (1 + m) 0) ?st
            = fold (step op ftp server login) (replicate m 0)
                (fold (step op ftp server login) (replicate 1 0) ?st)"
      by (simp only: replicate_add fold_append comp_apply)
    then have "run_pool op ftp server login (replicate (1 + m) 0) ?st
             = \<lparr>p_world = w', p_queue = queue',
                p_procs = [\<lparr>p_pc = (case r of Inl e \<Rightarrow> Died e | Inr u \<Rightarrow> Exited),
                            p_result = result'\<rparr>]\<rparr>"
      using one m r by (cases x) (simp_all add: run_pool_def)
    then show ?thesis by blast
  qed
qed

lemma step_finished:
  "list_all finished (p_procs st) \<Longrightarrow> step op ftp server login k st = st"
  by (auto simp: step_def finished_def list_all_length Let_def split: pc.splits)

section \<open>Consumption of the queue by the pool\<close>

lemma step_keeps_waiting:
  assumes "p_queue st = []" and "k < length (p_procs st)" and "p_pc (p_procs st ! k) = AtGet sid"
  shows "p_queue (step op ftp server login j st) = [] \<and>
         length (p_procs (step op ftp server login j st)) = length (p_procs st) \<and>
         p_pc (p_procs (step op ftp server login j st) ! k) = AtGet sid"
  using assms
  by (cases "j = k")
     (auto simp: step_def Let_def nth_list_update split: pc.splits prod.splits sum.splits)

lemma run_keeps_waiting:
  assumes "p_queue st = []" and "k < length (p_procs st)" and "p_pc (p_procs st ! k) = AtGet sid"
  shows "p_queue (fold (step op ftp server login) sched st) = [] \<and>
         k < length (p_procs (fold (step op ftp server login) sched st)) \<and>
         p_pc (p_procs (fold (step op ftp server login) sched st) ! k) = AtGet sid"
  using assms
proof (induction sched arbitrary: st)
  case Nil
  then show ?case by simp
next
  case (Cons j sched)
  from step_keeps_waiting [OF Cons.prems, of op ftp server login j]
  show ?case using Cons.IH [of "step op ftp server login j st"] Cons.prems(2) by simp
qed

lemma waiting_not_finished:
  "k < length ps \<Longrightarrow> p_pc (ps ! k) = AtGet sid \<Longrightarrow> \<not> list_all finished ps"
  by (auto simp: list_all_length finished_def)

text \<open>
  Claim C8 on two runs.  First, two processes and one item that uploads at once: when both
  processes have seen the queue non-empty before either calls \<open>queue.get(True)\<close>, the one
  that comes second waits in \<open>get\<close> on an empty queue, whatever the schedule does afterwards,
  and the batch call never returns.  Second, one process and two items of which the first
  already exists on the server: the process records the first item, raises
  \<open>UnboundLocalError\<close> and ends; the pool is over with the second item still on the queue
  and \<open>/remote/y\<close> never written.
\<close>

theorem pool_blocks_and_skips:
  "upload_multiple ([0, 1, 0, 1, 0, 1] @ sched) [(''/local/y'', ''/remote/y'')]
     False False None None None world_two = None \<and>
   map_option fst
     (upload_multiple [0, 0, 0] [(''/local/x'', ''/remote/x''), (''/local/y'', ''/remote/y'')]
        False False None None None world_one) = Some (Inr []) \<and>
   map p_pc (p_procs (run_pool (upload_item None None) None None None [0, 0, 0]
     (upload_pool [(''/local/x'', ''/remote/x''), (''/local/y'', ''/remote/y'')] 1 world_one)))
     = [Died UnboundLocalError] \<and>
   map i_src (p_queue (run_pool (upload_item None None) None None None [0, 0, 0]
     (upload_pool [(''/local/x'', ''/remote/x''), (''/local/y'', ''/remote/y'')] 1 world_one)))
     = [''/local/y''] \<and>
   fst (ls ''/remote/y'' None None None True
     (p_world (run_pool (upload_item None None) None None None [0, 0, 0]
       (upload_pool [(''/local/x'', ''/remote/x''), (''/local/y'', ''/remote/y'')] 1 world_one))))
     = Inr []"
proof -
  let ?st = "run_pool (upload_item None None) None None None [0, 1, 0, 1, 0, 1]
               (upload_pool [(''/local/y'', ''/remote/y'')] 2 world_two)"
  have q: "p_queue ?st = []" by code_simp
  have l: "1 < length (p_procs ?st)" by code_simp
  have g: "p_pc (p_procs ?st ! 1) = AtGet 1" by code_simp
  have n: "get_connections world_two = 2" by code_simp
  note w = run_keeps_waiting [OF q l g, of "upload_item None None" None None None sched]
  then have "\<not> list_all finished
      (p_procs (fold (step (upload_item None None) None None None) sched ?st))"
    using waiting_not_finished by blast
  then have a: "upload_multiple ([0, 1, 0, 1, 0, 1] @ sched) [(''/local/y'', ''/remote/y'')]
     False False None None None world_two = None"
    using n
    by (simp add: upload_multiple_def ftp_multiple_def Let_def run_pool_def upload_pool_def
          numeral_2_eq_2)
  have b: "map_option fst
     (upload_multiple [0, 0, 0] [(''/local/x'', ''/remote/x''), (''/local/y'', ''/remote/y'')]
        False False None None None world_one) = Some (Inr [])"
    by code_simp
  have c: "map p_pc (p_procs (run_pool (upload_item None None) None None None [0, 0, 0]
     (upload_pool [(''/local/x'', ''/remote/x''), (''/local/y'', ''/remote/y'')] 1 world_one)))
     = [Died UnboundLocalError]"
    by code_simp
  have e: "map i_src (p_queue (run_pool (upload_item None None) None None None [0, 0, 0]
     (upload_pool [(''/local/x'', ''/remote/x''), (''/local/y'', ''/remote/y'')] 1 world_one)))
     = [''/local/y'']"
    by code_simp
  have f: "fst (ls ''/remote/y'' None None None True
     (p_world (run_pool (upload_item None None) None None None [0, 0, 0]
       (upload_pool [(''/local/x'', ''/remote/x''), (''/local/y'', ''/remote/y'')] 1 world_one))))
     = Inr []"
    by code_simp
  show ?thesis using a b c e f by blast
qed

end
